theory Spec2Isabelle
  imports Main "HOL-Library.Word" "HOL-Library.Multiset"
begin

unbundle bit_operations_syntax

section \<open>Data model\<close>

text \<open>
  The road functions of \<^verbatim>\<open>src/road.cpp\<close> work on the tile array of the map. A tile is
  addressed by a \<^verbatim>\<open>TileIndex\<close>, an unsigned 32-bit integer; the road bits of a tile are
  a four-bit set, track bits and slopes byte-sized ones.
\<close>

text \<open>
  Modelled from the spec: the enumerations (\<^verbatim>\<open>direction_type.h\<close>, \<^verbatim>\<open>tile_type.h\<close>,
  \<^verbatim>\<open>road_type.h\<close>, \<^verbatim>\<open>rail_type.h\<close>, \<^verbatim>\<open>company_type.h\<close>) are not among the sources.
  The spec has four directions, the tile categories open ground, vegetation, road, railway,
  water, tunnel/bridge, station and others, and two road kinds; the constructors carry the
  names \<^verbatim>\<open>road.cpp\<close> uses for them. \<open>error\<close> lists the ways a call can end without a
  result: a failed \<^verbatim>\<open>assert\<close>, a shift by \<^verbatim>\<open>INVALID_DIAGDIR\<close>, and a read of the first
  element of an empty vector.
\<close>

type_synonym TileIndex = "32 word"
type_synonym RoadBits = "4 word"
type_synonym TrackBits = "8 word"
type_synonym Slope = "8 word"
type_synonym TownID = nat

datatype DiagDirection = DIAGDIR_NE | DIAGDIR_SE | DIAGDIR_SW | DIAGDIR_NW

datatype Axis = AXIS_X | AXIS_Y

datatype TileType =
    MP_CLEAR | MP_RAILWAY | MP_ROAD | MP_HOUSE | MP_TREES | MP_STATION
  | MP_WATER | MP_VOID | MP_INDUSTRY | MP_TUNNELBRIDGE | MP_OBJECT

datatype RoadType = ROADTYPE_ROAD | ROADTYPE_TRAM

datatype RoadTileType = ROAD_TILE_NORMAL | ROAD_TILE_CROSSING | ROAD_TILE_DEPOT

datatype RailTileType = RAIL_TILE_NORMAL | RAIL_TILE_SIGNALS | RAIL_TILE_DEPOT

datatype Owner = OWNER_COMPANY nat | OWNER_TOWN | OWNER_NONE | OWNER_WATER | OWNER_DEITY

datatype error = AssertionFailed | InvalidDiagDir | OutOfBounds

text \<open>
  Modelled from the spec: the tile array and its accessors (\<^verbatim>\<open>tile_map.h\<close>,
  \<^verbatim>\<open>road_map.h\<close>, \<^verbatim>\<open>rail_map.h\<close>, \<^verbatim>\<open>water_map.h\<close>) are not among the sources. The
  spec's terrain oracle answers a tile's type, slope and height, existing road bits per
  road kind, whether it is a plain rail tile with a given track, and whether it is real
  water; one field per answer. \<open>road_bits\<close>/\<open>tram_bits\<close> are what \<^verbatim>\<open>GetRoadBits\<close> reads
  and \<^verbatim>\<open>SetRoadBits\<close> writes; \<open>other_road_bits\<close>/\<open>other_tram_bits\<close> are what
  \<^verbatim>\<open>GetAnyRoadBits\<close> answers for a tile that is not a normal road tile (crossing, depot,
  road stop, bridge head).
\<close>

record Tile =
  tile_type :: TileType
  tile_slope :: Slope
  tile_height :: int
  foundation_slope :: Slope
  rail_tile_type :: RailTileType
  track_bits :: TrackBits
  water_clear :: bool
  road_tile_type :: RoadTileType
  road_bits :: RoadBits
  tram_bits :: RoadBits
  other_road_bits :: RoadBits
  other_tram_bits :: RoadBits
  road_types :: "8 word"
  tile_owner :: Owner
  tram_owner :: Owner
  town_id :: TownID

record Map =
  MapLogX :: nat
  MapLogY :: nat
  tiles :: "TileIndex \<Rightarrow> Tile"

subsection \<open>Constants of the enumerations\<close>

text \<open>
  Modelled from the spec: the values of the bit-set enumerations (\<^verbatim>\<open>road_type.h\<close>,
  \<^verbatim>\<open>track_type.h\<close>, \<^verbatim>\<open>slope_type.h\<close>) are not among the sources. One bit per
  direction, per track and per raised corner of a tile (W = 1, S = 2, E = 4, N = 8); an
  inclined slope has two adjacent corners raised.
\<close>

definition ROAD_NONE :: RoadBits where "ROAD_NONE = 0"
definition ROAD_NW :: RoadBits where "ROAD_NW = 1"
definition ROAD_SW :: RoadBits where "ROAD_SW = 2"
definition ROAD_SE :: RoadBits where "ROAD_SE = 4"
definition ROAD_NE :: RoadBits where "ROAD_NE = 8"

definition TRACK_BIT_X :: TrackBits where "TRACK_BIT_X = 1"
definition TRACK_BIT_Y :: TrackBits where "TRACK_BIT_Y = 2"

definition SLOPE_FLAT :: Slope where "SLOPE_FLAT = 0"
definition SLOPE_NW :: Slope where "SLOPE_NW = 9"
definition SLOPE_SW :: Slope where "SLOPE_SW = 3"
definition SLOPE_SE :: Slope where "SLOPE_SE = 6"
definition SLOPE_NE :: Slope where "SLOPE_NE = 12"

definition ROADTYPES_ROAD :: "8 word" where "ROADTYPES_ROAD = 1"

definition diagdirs :: "DiagDirection list" where
  \<comment> \<open>the range \<^verbatim>\<open>DIAGDIR_BEGIN .. DIAGDIR_END - 1\<close> of the \<^verbatim>\<open>for\<close> loops\<close>
  "diagdirs = [DIAGDIR_NE, DIAGDIR_SE, DIAGDIR_SW, DIAGDIR_NW]"

fun diagdir_index :: "DiagDirection \<Rightarrow> nat" where
  "diagdir_index DIAGDIR_NE = 0"
| "diagdir_index DIAGDIR_SE = 1"
| "diagdir_index DIAGDIR_SW = 2"
| "diagdir_index DIAGDIR_NW = 3"

subsection \<open>Direction helpers\<close>

text \<open>
  Modelled from the spec: \<^verbatim>\<open>direction_func.h\<close> and \<^verbatim>\<open>road_func.h\<close> are not among the
  sources. A road-bit set is a bitmask over the four directions, one bit each
  (\<^verbatim>\<open>ROAD_NW << (3 ^ dir)\<close>) in a four-bit field; mirroring swaps the two halves of
  the nibble; the axis of a direction is its lowest bit; the reverse direction is two
  steps further.
\<close>

definition DiagDirToRoadBits :: "DiagDirection \<Rightarrow> RoadBits" where
  "DiagDirToRoadBits d = push_bit (3 XOR diagdir_index d) ROAD_NW"

definition MirrorRoadBits :: "RoadBits \<Rightarrow> RoadBits" where
  "MirrorRoadBits r = push_bit 2 (r AND 3) OR (drop_bit 2 r AND 3)"

fun DiagDirToAxis :: "DiagDirection \<Rightarrow> Axis" where
  "DiagDirToAxis DIAGDIR_NE = AXIS_X"
| "DiagDirToAxis DIAGDIR_SE = AXIS_Y"
| "DiagDirToAxis DIAGDIR_SW = AXIS_X"
| "DiagDirToAxis DIAGDIR_NW = AXIS_Y"

fun ReverseDiagDir :: "DiagDirection \<Rightarrow> DiagDirection" where
  "ReverseDiagDir DIAGDIR_NE = DIAGDIR_SW"
| "ReverseDiagDir DIAGDIR_SE = DIAGDIR_NW"
| "ReverseDiagDir DIAGDIR_SW = DIAGDIR_NE"
| "ReverseDiagDir DIAGDIR_NW = DIAGDIR_SE"

subsection \<open>Map geometry\<close>

text \<open>
  Modelled from the spec: \<^verbatim>\<open>map_func.h\<close> and \<^verbatim>\<open>map.cpp\<close> are not among the sources. A tile
  coordinate is an integer that decomposes into (x, y), takes a directional offset by
  plain unsigned addition, and has a Manhattan distance to another coordinate. The map is
  \<open>2 ^ MapLogX\<close> tiles wide: x is the low \<open>MapLogX\<close> bits of the index, y the rest.
\<close>

definition MapSize :: "Map \<Rightarrow> nat" where
  "MapSize m = 2 ^ (MapLogX m + MapLogY m)"

definition TileX :: "Map \<Rightarrow> TileIndex \<Rightarrow> nat" where
  "TileX m t = unat (t AND mask (MapLogX m))"

definition TileY :: "Map \<Rightarrow> TileIndex \<Rightarrow> nat" where
  "TileY m t = unat (drop_bit (MapLogX m) t)"

definition Delta :: "nat \<Rightarrow> nat \<Rightarrow> nat" where
  "Delta a b = (if a < b then b - a else a - b)"

definition DistanceManhattan :: "Map \<Rightarrow> TileIndex \<Rightarrow> TileIndex \<Rightarrow> nat" where
  "DistanceManhattan m t0 t1 =
     Delta (TileX m t0) (TileX m t1) + Delta (TileY m t0) (TileY m t1)"

fun TileOffsByDiagDir :: "Map \<Rightarrow> DiagDirection \<Rightarrow> TileIndex" where
  "TileOffsByDiagDir m DIAGDIR_NE = - 1"
| "TileOffsByDiagDir m DIAGDIR_SE = push_bit (MapLogX m) 1"
| "TileOffsByDiagDir m DIAGDIR_SW = 1"
| "TileOffsByDiagDir m DIAGDIR_NW = - push_bit (MapLogX m) 1"

definition TileAddByDiagDir :: "Map \<Rightarrow> TileIndex \<Rightarrow> DiagDirection \<Rightarrow> TileIndex" where
  "TileAddByDiagDir m tile dir = tile + TileOffsByDiagDir m dir"

definition DiagdirBetweenTiles :: "Map \<Rightarrow> TileIndex \<Rightarrow> TileIndex \<Rightarrow> DiagDirection option" where
  \<comment> \<open>\<open>None\<close> is \<^verbatim>\<open>INVALID_DIAGDIR\<close>\<close>
  "DiagdirBetweenTiles m tile_from tile_to =
     (let dx = int (TileX m tile_to) - int (TileX m tile_from);
          dy = int (TileY m tile_to) - int (TileY m tile_from)
      in if dx = 0 then
           (if dy = 0 then None else Some (if dy < 0 then DIAGDIR_NW else DIAGDIR_SE))
         else
           (if dy \<noteq> 0 then None else Some (if dx < 0 then DIAGDIR_NE else DIAGDIR_SW)))"

subsection \<open>Tile accessors\<close>

text \<open>
  Modelled from the spec: the accessors read the fields of the tile record. A valid map
  position is an index inside the map whose tile is not of the void type; a normal road
  tile is a road tile of the plain kind (no crossing, no depot); an inclined slope is one
  of the four single inclines (\<^verbatim>\<open>slope_func.h\<close> is not among the sources).
\<close>

definition GetTileType :: "Map \<Rightarrow> TileIndex \<Rightarrow> TileType" where
  "GetTileType m t = tile_type (tiles m t)"

definition IsTileType :: "Map \<Rightarrow> TileIndex \<Rightarrow> TileType \<Rightarrow> bool" where
  "IsTileType m t ty = (GetTileType m t = ty)"

definition IsValidTile :: "Map \<Rightarrow> TileIndex \<Rightarrow> bool" where
  "IsValidTile m t = (unat t < MapSize m \<and> \<not> IsTileType m t MP_VOID)"

definition GetTileSlope :: "Map \<Rightarrow> TileIndex \<Rightarrow> Slope \<times> int" where
  \<comment> \<open>the slope, and the height written through the pointer argument\<close>
  "GetTileSlope m t = (tile_slope (tiles m t), tile_height (tiles m t))"

definition IsInclinedSlope :: "Slope \<Rightarrow> bool" where
  "IsInclinedSlope s = (s = SLOPE_NW \<or> s = SLOPE_SW \<or> s = SLOPE_SE \<or> s = SLOPE_NE)"

definition GetFoundationSlope :: "Map \<Rightarrow> TileIndex \<Rightarrow> Slope" where
  "GetFoundationSlope m t = foundation_slope (tiles m t)"

definition GetRailTileType :: "Map \<Rightarrow> TileIndex \<Rightarrow> RailTileType" where
  "GetRailTileType m t = rail_tile_type (tiles m t)"

definition GetTrackBits :: "Map \<Rightarrow> TileIndex \<Rightarrow> TrackBits" where
  "GetTrackBits m t = track_bits (tiles m t)"

definition IsWater :: "Map \<Rightarrow> TileIndex \<Rightarrow> bool" where
  "IsWater m t = water_clear (tiles m t)"

definition IsNormalRoadTile :: "Map \<Rightarrow> TileIndex \<Rightarrow> bool" where
  "IsNormalRoadTile m t =
     (IsTileType m t MP_ROAD \<and> road_tile_type (tiles m t) = ROAD_TILE_NORMAL)"

definition GetRoadBits :: "Map \<Rightarrow> TileIndex \<Rightarrow> RoadType \<Rightarrow> RoadBits" where
  "GetRoadBits m t rt =
     (case rt of ROADTYPE_ROAD \<Rightarrow> road_bits (tiles m t) | ROADTYPE_TRAM \<Rightarrow> tram_bits (tiles m t))"

definition GetAnyRoadBits :: "Map \<Rightarrow> TileIndex \<Rightarrow> RoadType \<Rightarrow> RoadBits" where
  "GetAnyRoadBits m t rt =
     (if IsNormalRoadTile m t then GetRoadBits m t rt
      else (case rt of
              ROADTYPE_ROAD \<Rightarrow> other_road_bits (tiles m t)
            | ROADTYPE_TRAM \<Rightarrow> other_tram_bits (tiles m t)))"

section \<open>Connectivity validator\<close>

definition IsPossibleCrossing :: "Map \<Rightarrow> TileIndex \<Rightarrow> Axis \<Rightarrow> bool" where
  "IsPossibleCrossing m tile ax =
     (IsTileType m tile MP_RAILWAY \<and>
      GetRailTileType m tile = RAIL_TILE_NORMAL \<and>
      GetTrackBits m tile = (if ax = AXIS_X then TRACK_BIT_Y else TRACK_BIT_X) \<and>
      GetFoundationSlope m tile = SLOPE_FLAT)"

definition CleanUpRoadBits_dir :: "Map \<Rightarrow> TileIndex \<Rightarrow> DiagDirection \<Rightarrow> RoadBits \<Rightarrow> RoadBits" where
  \<comment> \<open>one pass of the loop body of \<^verbatim>\<open>CleanUpRoadBits\<close>, for direction \<open>dir\<close>\<close>
  "CleanUpRoadBits_dir m tile dir org_rb =
     (let neighbor_tile = TileAddByDiagDir m tile dir;
          target_rb = DiagDirToRoadBits dir
      in if org_rb AND target_rb \<noteq> 0 then
           (let mirrored_rb = MirrorRoadBits target_rb;
                connective =
                  (if IsValidTile m neighbor_tile then
                     (case GetTileType m neighbor_tile of
                        MP_CLEAR \<Rightarrow> True
                      | MP_TREES \<Rightarrow> True
                      | MP_TUNNELBRIDGE \<Rightarrow>
                          (if IsNormalRoadTile m neighbor_tile then True
                           else (GetAnyRoadBits m neighbor_tile ROADTYPE_ROAD OR
                                 GetAnyRoadBits m neighbor_tile ROADTYPE_TRAM) AND mirrored_rb
                                  \<noteq> ROAD_NONE)
                      | MP_STATION \<Rightarrow>
                          (if IsNormalRoadTile m neighbor_tile then True
                           else (GetAnyRoadBits m neighbor_tile ROADTYPE_ROAD OR
                                 GetAnyRoadBits m neighbor_tile ROADTYPE_TRAM) AND mirrored_rb
                                  \<noteq> ROAD_NONE)
                      | MP_ROAD \<Rightarrow>
                          (if IsNormalRoadTile m neighbor_tile then True
                           else (GetAnyRoadBits m neighbor_tile ROADTYPE_ROAD OR
                                 GetAnyRoadBits m neighbor_tile ROADTYPE_TRAM) AND mirrored_rb
                                  \<noteq> ROAD_NONE)
                      | MP_RAILWAY \<Rightarrow> IsPossibleCrossing m neighbor_tile (DiagDirToAxis dir)
                      | MP_WATER \<Rightarrow> \<not> IsWater m neighbor_tile
                      | _ \<Rightarrow> False)
                   else False)
            in if \<not> connective then org_rb XOR target_rb else org_rb)
         else org_rb)"

definition CleanUpRoadBits :: "Map \<Rightarrow> TileIndex \<Rightarrow> RoadBits \<Rightarrow> RoadBits" where
  "CleanUpRoadBits m tile org_rb =
     (if \<not> IsValidTile m tile then ROAD_NONE
      else fold (CleanUpRoadBits_dir m tile) diagdirs org_rb)"

text \<open>
  The connectivity rule as the specification words it, for the neighbour \<open>n\<close> of a tile
  in direction \<open>d\<close>: the mirrored direction is the reverse of \<open>d\<close>.
\<close>

definition spec_connective :: "Map \<Rightarrow> TileIndex \<Rightarrow> DiagDirection \<Rightarrow> bool" where
  "spec_connective m n d =
     (IsValidTile m n \<and>
      (GetTileType m n = MP_CLEAR \<or> GetTileType m n = MP_TREES \<or>
       ((GetTileType m n = MP_TUNNELBRIDGE \<or> GetTileType m n = MP_STATION \<or>
         GetTileType m n = MP_ROAD) \<and>
        (IsNormalRoadTile m n \<or>
         (GetAnyRoadBits m n ROADTYPE_ROAD OR GetAnyRoadBits m n ROADTYPE_TRAM) AND
           DiagDirToRoadBits (ReverseDiagDir d) \<noteq> 0)) \<or>
       (GetTileType m n = MP_RAILWAY \<and> GetRailTileType m n = RAIL_TILE_NORMAL \<and>
        GetTrackBits m n = (case DiagDirToAxis d of AXIS_X \<Rightarrow> TRACK_BIT_Y | AXIS_Y \<Rightarrow> TRACK_BIT_X) \<and>
        GetFoundationSlope m n = SLOPE_FLAT) \<or>
       (GetTileType m n = MP_WATER \<and> \<not> IsWater m n)))"

section \<open>Callbacks of the path finder\<close>

definition PublicRoad_CalculateG :: "TileIndex \<Rightarrow> TileIndex \<Rightarrow> int" where
  \<comment> \<open>the cost of the step from \<open>parent\<close> to \<open>current\<close>; neither is looked at\<close>
  "PublicRoad_CalculateG current parent = 1"

definition PublicRoad_CalculateH :: "Map \<Rightarrow> TileIndex \<Rightarrow> TileIndex \<Rightarrow> int" where
  "PublicRoad_CalculateH m user_target current = int (DistanceManhattan m user_target current)"

definition CanBuildRoadFromTo :: "Map \<Rightarrow> TileIndex \<Rightarrow> TileIndex \<Rightarrow> error + bool" where
  "CanBuildRoadFromTo m tbegin tend =
     (if DistanceManhattan m tbegin tend \<noteq> 1 then Inl AssertionFailed
      else
        (let (slopeBegin, heightBegin) = GetTileSlope m tbegin;
             (slopeEnd, heightEnd) = GetTileSlope m tend
         in Inr ((slopeEnd = SLOPE_FLAT \<or> IsInclinedSlope slopeEnd) \<and>
                 ((slopeEnd = slopeBegin \<and> heightEnd \<noteq> heightBegin) \<or>
                  slopeEnd = SLOPE_FLAT \<or> slopeBegin = SLOPE_FLAT))))"

text \<open>The edge precheck as the specification words it: the destination is flat or a
  single incline, and either both ends have the same incline at different heights, or
  one end is flat.\<close>

definition spec_edge_admissible :: "Map \<Rightarrow> TileIndex \<Rightarrow> TileIndex \<Rightarrow> bool" where
  "spec_edge_admissible m tbegin tend =
     (let slopeBegin = fst (GetTileSlope m tbegin); heightBegin = snd (GetTileSlope m tbegin);
          slopeEnd = fst (GetTileSlope m tend); heightEnd = snd (GetTileSlope m tend)
      in (slopeEnd = SLOPE_FLAT \<or> IsInclinedSlope slopeEnd) \<and>
         ((IsInclinedSlope slopeBegin \<and> IsInclinedSlope slopeEnd \<and> slopeBegin = slopeEnd \<and>
           heightBegin \<noteq> heightEnd) \<or>
          slopeBegin = SLOPE_FLAT \<or> slopeEnd = SLOPE_FLAT))"

fun GetNeighbours_loop ::
  "Map \<Rightarrow> TileIndex \<Rightarrow> DiagDirection list \<Rightarrow> TileIndex list \<Rightarrow> error + TileIndex list" where
  "GetNeighbours_loop m tile [] neighbours = Inr neighbours"
| "GetNeighbours_loop m tile (d # ds) neighbours =
     (let t2 = tile + TileOffsByDiagDir m d
      in if IsValidTile m t2 then
           (case CanBuildRoadFromTo m tile t2 of
              Inl e \<Rightarrow> Inl e
            | Inr can_build \<Rightarrow>
                if can_build \<and>
                   (IsTileType m t2 MP_CLEAR \<or> IsTileType m t2 MP_TREES \<or> IsTileType m t2 MP_ROAD)
                then GetNeighbours_loop m tile ds (neighbours @ [t2])
                else GetNeighbours_loop m tile ds neighbours)
         else GetNeighbours_loop m tile ds neighbours)"

definition PublicRoad_GetNeighbours :: "Map \<Rightarrow> TileIndex \<Rightarrow> error + TileIndex list" where
  \<comment> \<open>the tiles written to \<^verbatim>\<open>aystar->neighbours\<close>, each with direction \<^verbatim>\<open>INVALID_TRACKDIR\<close>\<close>
  "PublicRoad_GetNeighbours m tile = GetNeighbours_loop m tile diagdirs []"

text \<open>The neighbours as the specification words them: a one-step offset of the tile
  that is a valid position, passes the edge precheck, and is clear ground, trees or
  road.\<close>

definition spec_neighbour :: "Map \<Rightarrow> TileIndex \<Rightarrow> TileIndex \<Rightarrow> bool" where
  "spec_neighbour m tile t2 =
     ((\<exists>d. t2 = tile + TileOffsByDiagDir m d) \<and> IsValidTile m t2 \<and>
      CanBuildRoadFromTo m tile t2 = Inr True \<and>
      (GetTileType m t2 = MP_CLEAR \<or> GetTileType m t2 = MP_TREES \<or> GetTileType m t2 = MP_ROAD))"

definition PublicRoad_EndNodeCheck :: "TileIndex \<Rightarrow> TileIndex \<Rightarrow> bool" where
  \<comment> \<open>\<open>True\<close> is \<^verbatim>\<open>AYSTAR_FOUND_END_NODE\<close>, \<open>False\<close> is \<^verbatim>\<open>AYSTAR_DONE\<close>\<close>
  "PublicRoad_EndNodeCheck user_target current = (current = user_target)"

text \<open>
  The search graph the claims speak of: a buildable path steps from each tile to one of
  the neighbours the expansion returns for it, and costs the sum of the step costs.
\<close>

fun buildable_path :: "Map \<Rightarrow> TileIndex list \<Rightarrow> bool" where
  "buildable_path m [] = True"
| "buildable_path m [t] = True"
| "buildable_path m (t # t' # ts) =
     ((case PublicRoad_GetNeighbours m t of Inl e \<Rightarrow> False | Inr ns \<Rightarrow> t' \<in> set ns) \<and>
      buildable_path m (t' # ts))"

fun path_cost :: "TileIndex list \<Rightarrow> int" where
  "path_cost [] = 0"
| "path_cost [t] = 0"
| "path_cost (t # t' # ts) = PublicRoad_CalculateG t' t + path_cost (t' # ts)"

section \<open>Path materialization\<close>

text \<open>
  Modelled from the spec: \<^verbatim>\<open>SetRoadBits\<close> and \<^verbatim>\<open>MakeRoadNormal\<close> (\<^verbatim>\<open>road_map.h\<close>) are not
  among the sources. Setting road bits replaces the bit set of the given road kind;
  making a normal road creates a plain road tile with the given bits for the road kinds
  in \<open>rot\<close>, the given town, road owner and tram owner.
\<close>

definition SetRoadBits :: "Map \<Rightarrow> TileIndex \<Rightarrow> RoadBits \<Rightarrow> RoadType \<Rightarrow> Map" where
  "SetRoadBits m t r rt =
     m\<lparr>tiles := (tiles m)(t :=
        (case rt of
           ROADTYPE_ROAD \<Rightarrow> (tiles m t)\<lparr>road_bits := r\<rparr>
         | ROADTYPE_TRAM \<Rightarrow> (tiles m t)\<lparr>tram_bits := r\<rparr>))\<rparr>"

definition MakeRoadNormal ::
  "Map \<Rightarrow> TileIndex \<Rightarrow> RoadBits \<Rightarrow> 8 word \<Rightarrow> TownID \<Rightarrow> Owner \<Rightarrow> Owner \<Rightarrow> Map" where
  "MakeRoadNormal m t bits rot town road tram =
     m\<lparr>tiles := (tiles m)(t :=
        (tiles m t)\<lparr>tile_type := MP_ROAD,
                    tile_owner := road,
                    town_id := town,
                    tram_bits := (if bit rot 1 then bits else 0),
                    road_bits := (if bit rot 0 then bits else 0),
                    road_tile_type := ROAD_TILE_NORMAL,
                    road_types := rot,
                    tram_owner := tram\<rparr>)\<rparr>"

definition RoadBitsTowards :: "Map \<Rightarrow> TileIndex \<Rightarrow> TileIndex \<Rightarrow> error + RoadBits" where
  \<comment> \<open>\<^verbatim>\<open>DiagDirToRoadBits(DiagdirBetweenTiles(tile, tile2))\<close>; the shift is undefined for
      \<^verbatim>\<open>INVALID_DIAGDIR\<close>\<close>
  "RoadBitsTowards m tile tile2 =
     (case DiagdirBetweenTiles m tile tile2 of
        None \<Rightarrow> Inl InvalidDiagDir
      | Some d \<Rightarrow> Inr (DiagDirToRoadBits d))"

definition NodeRoadBits ::
  "Map \<Rightarrow> TileIndex option \<Rightarrow> TileIndex \<Rightarrow> TileIndex option \<Rightarrow> error + RoadBits" where
  \<comment> \<open>\<^verbatim>\<open>roadBits\<close> of one path node, from its child and its parent in the chain\<close>
  "NodeRoadBits m child tile parent =
     (case (case child of
              None \<Rightarrow> Inr ROAD_NONE
            | Some tile2 \<Rightarrow>
                (case RoadBitsTowards m tile tile2 of
                   Inl e \<Rightarrow> Inl e
                 | Inr b \<Rightarrow> Inr (ROAD_NONE OR b))) of
        Inl e \<Rightarrow> Inl e
      | Inr roadBits \<Rightarrow>
          (case parent of
             None \<Rightarrow> Inr roadBits
           | Some tile2 \<Rightarrow>
               (case RoadBitsTowards m tile tile2 of
                  Inl e \<Rightarrow> Inl e
                | Inr b \<Rightarrow> Inr (roadBits OR b))))"

definition WriteRoad :: "Map \<Rightarrow> TileIndex \<Rightarrow> RoadBits \<Rightarrow> TownID \<Rightarrow> Map" where
  \<comment> \<open>the two branches on \<^verbatim>\<open>GetTileType(tile) == MP_ROAD\<close>\<close>
  "WriteRoad m tile roadBits townID =
     (if GetTileType m tile = MP_ROAD then
        SetRoadBits m tile (GetRoadBits m tile ROADTYPE_ROAD OR roadBits) ROADTYPE_ROAD
      else MakeRoadNormal m tile roadBits ROADTYPES_ROAD townID OWNER_TOWN OWNER_NONE)"

text \<open>
  The parent chain of the goal node is the list of its tiles, goal first. \<open>child\<close> is
  the node visited before (\<open>None\<close> is \<^verbatim>\<open>nullptr\<close>), the head of the remaining list the
  parent. \<open>closest\<close> is \<^verbatim>\<open>CalcClosestTownFromTile(tile)->index\<close>, a query of the town
  registry that is not among the sources. The first loop of the function only counts the
  nodes into a variable nothing reads.
\<close>

fun FoundEndNode_loop ::
  "(TileIndex \<Rightarrow> TownID) \<Rightarrow> Map \<Rightarrow> TileIndex option \<Rightarrow> TileIndex list \<Rightarrow> error + Map" where
  "FoundEndNode_loop closest m child [] = Inr m"
| "FoundEndNode_loop closest m child (tile # rest) =
     (let townID = closest tile;
          parent = (case rest of [] \<Rightarrow> None | tile2 # _ \<Rightarrow> Some tile2)
      in case NodeRoadBits m child tile parent of
           Inl e \<Rightarrow> Inl e
         | Inr roadBits \<Rightarrow>
             FoundEndNode_loop closest
               (if child \<noteq> None \<or> parent \<noteq> None then WriteRoad m tile roadBits townID else m)
               (Some tile) rest)"

definition PublicRoad_FoundEndNode ::
  "(TileIndex \<Rightarrow> TownID) \<Rightarrow> Map \<Rightarrow> TileIndex list \<Rightarrow> error + Map" where
  "PublicRoad_FoundEndNode closest m path = FoundEndNode_loop closest m None path"

text \<open>
  Notions the claims on materialization speak of. A found path is a chain of tiles, each
  at Manhattan distance 1 from the next (the expansion asserts it). \<open>node_bits_at\<close> is
  the bit set computed for the \<open>i\<close>-th node of the chain. \<open>spec_written_tile\<close> is the
  tile the specification describes for a node with computed bits \<open>rb\<close>: on a road tile
  the bits are ORed into the existing set; any other tile becomes a plain road tile with
  exactly these bits, of the closest town, owned by the town, with no tram owner.
  \<open>path_written\<close> says that the map already holds every node's bits.
\<close>

fun adjacent_path :: "Map \<Rightarrow> TileIndex list \<Rightarrow> bool" where
  "adjacent_path m [] = True"
| "adjacent_path m [t] = True"
| "adjacent_path m (t # t' # ts) = (DistanceManhattan m t t' = 1 \<and> adjacent_path m (t' # ts))"

definition node_bits_at ::
  "Map \<Rightarrow> TileIndex option \<Rightarrow> TileIndex list \<Rightarrow> nat \<Rightarrow> error + RoadBits" where
  "node_bits_at m child path i =
     NodeRoadBits m (if i = 0 then child else Some (path ! (i - 1))) (path ! i)
       (if Suc i < length path then Some (path ! Suc i) else None)"

definition spec_written_tile :: "Tile \<Rightarrow> RoadBits \<Rightarrow> TownID \<Rightarrow> Tile" where
  "spec_written_tile old rb town =
     (if tile_type old = MP_ROAD then old\<lparr>road_bits := road_bits old OR rb\<rparr>
      else old\<lparr>tile_type := MP_ROAD, road_tile_type := ROAD_TILE_NORMAL, road_bits := rb,
               tram_bits := 0, road_types := ROADTYPES_ROAD, town_id := town,
               tile_owner := OWNER_TOWN, tram_owner := OWNER_NONE\<rparr>)"

fun path_written :: "Map \<Rightarrow> TileIndex option \<Rightarrow> TileIndex list \<Rightarrow> bool" where
  "path_written m child [] = True"
| "path_written m child (tile # rest) =
     (let parent = (case rest of [] \<Rightarrow> None | tile2 # _ \<Rightarrow> Some tile2)
      in (case NodeRoadBits m child tile parent of
            Inl e \<Rightarrow> False
          | Inr rb \<Rightarrow>
              (child \<noteq> None \<or> parent \<noteq> None \<longrightarrow>
                 GetTileType m tile = MP_ROAD \<and>
                 GetRoadBits m tile ROADTYPE_ROAD OR rb = GetRoadBits m tile ROADTYPE_ROAD)) \<and>
         path_written m (Some tile) rest)"

text \<open>
  The connectivity invariant of the specification: on every valid road tile the validator
  would strip no bit of the tile's road-bit set. A dangling stub is a bit that breaks it:
  a road bit of a valid road tile that the validator strips from the tile's road-bit set.
  \<open>stubs_connect_except m P D\<close> says that every road bit of a valid road tile points at a
  connective neighbour, the bits that point at a tile of \<open>P\<close> and the bits listed in \<open>D\<close>
  (by tile and direction) left aside.
\<close>

definition road_stubs_connect :: "Map \<Rightarrow> bool" where
  "road_stubs_connect m =
     (\<forall>t. IsValidTile m t \<and> GetTileType m t = MP_ROAD \<longrightarrow>
          CleanUpRoadBits m t (GetRoadBits m t ROADTYPE_ROAD) = GetRoadBits m t ROADTYPE_ROAD)"

definition dangling_stub :: "Map \<Rightarrow> TileIndex \<Rightarrow> DiagDirection \<Rightarrow> bool" where
  "dangling_stub m t d =
     (IsValidTile m t \<and> GetTileType m t = MP_ROAD \<and>
      GetRoadBits m t ROADTYPE_ROAD AND DiagDirToRoadBits d \<noteq> 0 \<and>
      CleanUpRoadBits m t (GetRoadBits m t ROADTYPE_ROAD) AND DiagDirToRoadBits d = 0)"

definition stubs_connect_except ::
  "Map \<Rightarrow> TileIndex set \<Rightarrow> (TileIndex \<times> DiagDirection) set \<Rightarrow> bool" where
  "stubs_connect_except m P D =
     (\<forall>t d. IsValidTile m t \<and> GetTileType m t = MP_ROAD \<and>
            GetRoadBits m t ROADTYPE_ROAD AND DiagDirToRoadBits d \<noteq> 0 \<longrightarrow>
            spec_connective m (TileAddByDiagDir m t d) d \<or> TileAddByDiagDir m t d \<in> P \<or>
            (t, d) \<in> D)"

section \<open>Road network generator\<close>

text \<open>
  Modelled from the spec: the town pool (\<^verbatim>\<open>town.h\<close>) is not among the sources. A
  settlement has an identifier, a grid location and a population.
\<close>

record Town =
  index :: TownID
  xy :: TileIndex
  population :: nat

text \<open>
  Two collaborators of \<^verbatim>\<open>GeneratePublicRoads\<close> are not among the sources and are taken
  as parameters: \<open>srt\<close> is \<^verbatim>\<open>std::sort\<close> with the comparator \<open>key a < key b\<close>, and
  \<open>finder\<close> is one run of the search engine (\<^verbatim>\<open>Init\<close>, \<^verbatim>\<open>AddStartNode\<close>, \<^verbatim>\<open>Main\<close>)
  from a start tile to a target tile: it returns the map, with the path materialized
  if one was found, and whether \<^verbatim>\<open>Main\<close> returned \<^verbatim>\<open>AYSTAR_FOUND_END_NODE\<close>.
\<close>

type_synonym sorter = "(Town \<Rightarrow> nat) \<Rightarrow> Town list \<Rightarrow> Town list"
type_synonym finder = "Map \<Rightarrow> TileIndex \<Rightarrow> TileIndex \<Rightarrow> Map \<times> bool"

fun connect_each ::
  "finder \<Rightarrow> Town \<Rightarrow> Town list \<Rightarrow> Map \<times> Town list \<Rightarrow> Map \<times> Town list" where
  \<comment> \<open>the inner \<^verbatim>\<open>std::for_each\<close>; the state is the map and \<^verbatim>\<open>unconnected_towns\<close>\<close>
  "connect_each search tbegin [] (m, unconnected_towns) = (m, unconnected_towns)"
| "connect_each search tbegin (tend # rest) (m, unconnected_towns) =
     (let (m', found) = search m (xy tbegin) (xy tend)
      in connect_each search tbegin rest
           (m', if \<not> found then unconnected_towns @ [tend] else unconnected_towns))"

definition GeneratePublicRoads_round ::
  "sorter \<Rightarrow> finder \<Rightarrow> Map \<Rightarrow> Town list \<Rightarrow> error + Map \<times> Town list" where
  \<comment> \<open>the body of the \<^verbatim>\<open>do\<close> loop; reading \<^verbatim>\<open>*towns.begin()\<close> of an empty vector is
      out of bounds\<close>
  "GeneratePublicRoads_round srt search m unconnected_towns =
     (let towns = unconnected_towns;
          towns = srt population towns
      in case towns of
           [] \<Rightarrow> Inl OutOfBounds
         | tbegin # towns \<Rightarrow>
             (let towns = srt (\<lambda>t. DistanceManhattan m (xy tbegin) (xy t)) towns
              in Inr (connect_each search tbegin towns (m, []))))"

partial_function (option) GeneratePublicRoads_loop ::
  "sorter \<Rightarrow> finder \<Rightarrow> Map \<Rightarrow> Town list \<Rightarrow> (error + Map) option" where
  "GeneratePublicRoads_loop srt search m unconnected_towns =
     (case GeneratePublicRoads_round srt search m unconnected_towns of
        Inl e \<Rightarrow> Some (Inl e)
      | Inr (m', unconnected_towns') \<Rightarrow>
          if unconnected_towns' \<noteq> [] then GeneratePublicRoads_loop srt search m' unconnected_towns'
          else Some (Inr m'))"

declare GeneratePublicRoads_loop.simps [code]

definition GeneratePublicRoads ::
  "sorter \<Rightarrow> finder \<Rightarrow> Map \<Rightarrow> Town list \<Rightarrow> (error + Map) option" where
  \<comment> \<open>\<open>all_towns\<close> is what \<^verbatim>\<open>FOR_ALL_TOWNS\<close> enumerates; \<open>None\<close> is a run that never returns\<close>
  "GeneratePublicRoads srt search m all_towns = GeneratePublicRoads_loop srt search m all_towns"

text \<open>
  What the generator relies on from \<^verbatim>\<open>std::sort\<close>: the result is a permutation of the
  input in ascending order of the key. The order of elements with equal keys is left open.
\<close>

definition sorts :: "sorter \<Rightarrow> bool" where
  "sorts srt = (\<forall>key xs. mset (srt key xs) = mset xs \<and> sorted (map key (srt key xs)))"

text \<open>
  The searches of one round, told apart by their position in the target list \<open>ts\<close>:
  \<open>map_after \<dots> k\<close> is the map after the first \<open>k\<close> searches, and the \<open>k\<close>-th search
  (from the start town to \<open>ts ! k\<close>, on that map) fails when it does not find the end node.
\<close>

fun map_after :: "finder \<Rightarrow> Town \<Rightarrow> Town list \<Rightarrow> Map \<Rightarrow> nat \<Rightarrow> Map" where
  "map_after search tbegin ts m 0 = m"
| "map_after search tbegin ts m (Suc k) =
     fst (search (map_after search tbegin ts m k) (xy tbegin) (xy (ts ! k)))"

definition search_fails :: "finder \<Rightarrow> Town \<Rightarrow> Town list \<Rightarrow> Map \<Rightarrow> nat \<Rightarrow> bool" where
  "search_fails search tbegin ts m k =
     (\<not> snd (search (map_after search tbegin ts m k) (xy tbegin) (xy (ts ! k))))"

text \<open>The \<^verbatim>\<open>do\<close> loop cut off after \<open>n\<close> rounds: \<open>None\<close> when it has not returned by then.\<close>

fun GeneratePublicRoads_rounds ::
  "nat \<Rightarrow> sorter \<Rightarrow> finder \<Rightarrow> Map \<Rightarrow> Town list \<Rightarrow> (error + Map) option" where
  "GeneratePublicRoads_rounds 0 srt search m unconnected_towns = None"
| "GeneratePublicRoads_rounds (Suc n) srt search m unconnected_towns =
     (case GeneratePublicRoads_round srt search m unconnected_towns of
        Inl e \<Rightarrow> Some (Inl e)
      | Inr (m', unconnected_towns') \<Rightarrow>
          if unconnected_towns' \<noteq> [] then GeneratePublicRoads_rounds n srt search m' unconnected_towns'
          else Some (Inr m'))"

section \<open>Example maps\<close>

text \<open>
  An 8 x 8 map of flat clear ground (tile \<open>(x, y)\<close> has index \<open>8 * y + x\<close>), and the same
  map with a town road at \<open>(2, 1)\<close> whose only road bit points north-west at a house at
  \<open>(2, 0)\<close> (\<open>stub_map\<close>), or with a level crossing at \<open>(2, 1)\<close> (\<open>crossing_map\<close>).
\<close>

definition clear_tile :: Tile where
  "clear_tile =
     \<lparr>tile_type = MP_CLEAR, tile_slope = SLOPE_FLAT, tile_height = 0,
      foundation_slope = SLOPE_FLAT, rail_tile_type = RAIL_TILE_NORMAL, track_bits = 0,
      water_clear = False, road_tile_type = ROAD_TILE_NORMAL, road_bits = 0, tram_bits = 0,
      other_road_bits = 0, other_tram_bits = 0, road_types = 0, tile_owner = OWNER_NONE,
      tram_owner = OWNER_NONE, town_id = 0\<rparr>"

definition house_tile :: Tile where
  "house_tile = clear_tile\<lparr>tile_type := MP_HOUSE, tile_owner := OWNER_TOWN\<rparr>"

definition stub_road_tile :: Tile where
  "stub_road_tile =
     clear_tile\<lparr>tile_type := MP_ROAD, road_bits := ROAD_NW, road_types := ROADTYPES_ROAD,
                tile_owner := OWNER_TOWN\<rparr>"

definition open_map :: Map where
  "open_map = \<lparr>MapLogX = 3, MapLogY = 3, tiles = (\<lambda>t. clear_tile)\<rparr>"

definition crossing_tile :: Tile where
  \<comment> \<open>a level crossing whose road runs north-west to south-east\<close>
  "crossing_tile =
     clear_tile\<lparr>tile_type := MP_ROAD, road_tile_type := ROAD_TILE_CROSSING,
                other_road_bits := ROAD_NW OR ROAD_SE, road_types := ROADTYPES_ROAD\<rparr>"

definition crossing_map :: Map where
  "crossing_map = open_map\<lparr>tiles := (tiles open_map)(10 := crossing_tile)\<rparr>"

definition stub_map :: Map where
  "stub_map = open_map\<lparr>tiles := (tiles open_map)(2 := house_tile, 10 := stub_road_tile)\<rparr>"

text \<open>
  Three towns on the open map, and a search engine that finds every target but the tile
  of \<open>town_C\<close> and builds nothing.
\<close>

definition town_A :: Town where "town_A = \<lparr>index = 0, xy = 10, population = 300\<rparr>"
definition town_B :: Town where "town_B = \<lparr>index = 1, xy = 11, population = 100\<rparr>"
definition town_C :: Town where "town_C = \<lparr>index = 2, xy = 27, population = 200\<rparr>"

definition blocked_search :: finder where
  "blocked_search m s t = (m, t \<noteq> 27)"

section \<open>The connectivity validator keeps exactly the connective directions\<close>

lemma DiagDirToRoadBits_simps:
  "DiagDirToRoadBits DIAGDIR_NE = 8"
  "DiagDirToRoadBits DIAGDIR_SE = 4"
  "DiagDirToRoadBits DIAGDIR_SW = 2"
  "DiagDirToRoadBits DIAGDIR_NW = 1"
  by (simp_all add: DiagDirToRoadBits_def ROAD_NW_def)

lemma DiagDirToRoadBits_bit:
  "DiagDirToRoadBits d = push_bit (3 - diagdir_index d) 1"
  by (cases d) (simp_all add: DiagDirToRoadBits_def ROAD_NW_def)

lemma Mirror_DiagDirToRoadBits:
  "MirrorRoadBits (DiagDirToRoadBits d) = DiagDirToRoadBits (ReverseDiagDir d)"
  by (cases d) (simp_all add: DiagDirToRoadBits_simps MirrorRoadBits_def)

lemma has_road_bit: "(rb AND DiagDirToRoadBits d \<noteq> 0) = bit rb (3 - diagdir_index d)"
  by (simp add: DiagDirToRoadBits_bit bit_iff_and_push_bit_not_eq_0)

lemma road_bit_index_inj: "3 - diagdir_index d = 3 - diagdir_index e \<longleftrightarrow> d = e"
  by (cases d; cases e; simp)

lemma set_diagdirs: "set diagdirs = UNIV"
  unfolding diagdirs_def using DiagDirection.exhaust by auto

text \<open>One pass of the loop removes the direction's bit exactly when it is planned and the
  neighbour is not connective in the specification's sense.\<close>

lemma CleanUpRoadBits_dir_spec:
  "CleanUpRoadBits_dir m tile dir rb =
     (if rb AND DiagDirToRoadBits dir \<noteq> 0 \<and>
         \<not> spec_connective m (TileAddByDiagDir m tile dir) dir
      then rb XOR DiagDirToRoadBits dir else rb)"
  unfolding CleanUpRoadBits_dir_def spec_connective_def Let_def Mirror_DiagDirToRoadBits
    IsPossibleCrossing_def IsTileType_def IsNormalRoadTile_def ROAD_NONE_def
  by (cases "GetTileType m (TileAddByDiagDir m tile dir)"; cases "DiagDirToAxis dir"; simp)

lemma CleanUpRoadBits_dir_bit:
  "bit (CleanUpRoadBits_dir m tile dir rb) k =
     (bit rb k \<and>
      \<not> (k = 3 - diagdir_index dir \<and> \<not> spec_connective m (TileAddByDiagDir m tile dir) dir))"
proof -
  have n: "3 - diagdir_index dir < 4" by simp
  have x: "bit (rb XOR (2::4 word) ^ n) k = (bit rb k \<noteq> (k = n))" if "n < 4" for n
    using that by (auto simp add: bit_xor_iff bit_exp_iff)
  show ?thesis
    unfolding CleanUpRoadBits_dir_spec has_road_bit
    by (auto simp add: DiagDirToRoadBits_bit x [OF n])
qed

lemma CleanUpRoadBits_fold_bit:
  "bit (fold (CleanUpRoadBits_dir m tile) ds rb) k =
     (bit rb k \<and>
      (\<forall>dir \<in> set ds. \<not> (k = 3 - diagdir_index dir \<and>
                           \<not> spec_connective m (TileAddByDiagDir m tile dir) dir)))"
  by (induction ds arbitrary: rb) (auto simp add: CleanUpRoadBits_dir_bit)

lemma CleanUpRoadBits_has_bit:
  "IsValidTile m tile \<Longrightarrow>
   (CleanUpRoadBits m tile rb AND DiagDirToRoadBits d \<noteq> 0) =
     (rb AND DiagDirToRoadBits d \<noteq> 0 \<and> spec_connective m (TileAddByDiagDir m tile d) d)"
  by (auto simp add: CleanUpRoadBits_def has_road_bit CleanUpRoadBits_fold_bit set_diagdirs
      road_bit_index_inj)

lemma stub_map_valid_10: "IsValidTile stub_map 10"
  by code_simp

text \<open>
  C1. For a valid tile and any planned road bits, the bit of a direction is in the result
  of \<open>CleanUpRoadBits\<close> if and only if it is in the plan and the neighbour in that
  direction is connective by the specification's case analysis (\<open>spec_connective\<close>: valid,
  and clear ground or trees; or tunnel/bridge, station or road that is a normal road tile
  or whose road and tram bits together hold the direction back; or a plain rail tile with
  the perpendicular track on a flat foundation; or water that is not real water). The
  result holds no bit that the plan does not hold.
\<close>

theorem CleanUpRoadBits_keeps_connective:
  assumes "IsValidTile m tile"
  shows "((CleanUpRoadBits m tile rb AND DiagDirToRoadBits d \<noteq> 0) =
            (rb AND DiagDirToRoadBits d \<noteq> 0 \<and>
             spec_connective m (TileAddByDiagDir m tile d) d)) \<and>
         CleanUpRoadBits m tile rb AND NOT rb = 0"
proof
  show "(CleanUpRoadBits m tile rb AND DiagDirToRoadBits d \<noteq> 0) =
          (rb AND DiagDirToRoadBits d \<noteq> 0 \<and> spec_connective m (TileAddByDiagDir m tile d) d)"
    using assms by (rule CleanUpRoadBits_has_bit)
  show "CleanUpRoadBits m tile rb AND NOT rb = 0"
    using assms
    by (simp add: CleanUpRoadBits_def bit_eq_iff bit_and_iff bit_not_iff CleanUpRoadBits_fold_bit)
qed

text \<open>On the map with the road stub: of the plan with all four bits, the validator drops
  the north-west bit, which points at the house, and keeps the others.\<close>

theorem CleanUpRoadBits_keeps_connective_witness:
  "IsValidTile stub_map 10 \<and>
   \<not> spec_connective stub_map (TileAddByDiagDir stub_map 10 DIAGDIR_NW) DIAGDIR_NW \<and>
   CleanUpRoadBits stub_map 10 15 AND DiagDirToRoadBits DIAGDIR_NW = 0 \<and>
   spec_connective stub_map (TileAddByDiagDir stub_map 10 DIAGDIR_SW) DIAGDIR_SW \<and>
   CleanUpRoadBits stub_map 10 15 AND DiagDirToRoadBits DIAGDIR_SW \<noteq> 0 \<and>
   CleanUpRoadBits stub_map 10 15 = 14"
proof -
  have nw: "\<not> spec_connective stub_map (TileAddByDiagDir stub_map 10 DIAGDIR_NW) DIAGDIR_NW"
    by code_simp
  have sw: "spec_connective stub_map (TileAddByDiagDir stub_map 10 DIAGDIR_SW) DIAGDIR_SW"
    by code_simp
  have all: "(15 :: RoadBits) AND DiagDirToRoadBits d \<noteq> 0" for d
    by (cases d) (simp_all add: DiagDirToRoadBits_simps)
  have val: "CleanUpRoadBits stub_map 10 15 = 14"
    by code_simp
  show ?thesis
    using CleanUpRoadBits_keeps_connective [OF stub_map_valid_10, of 15 DIAGDIR_NW]
      CleanUpRoadBits_keeps_connective [OF stub_map_valid_10, of 15 DIAGDIR_SW]
    by (simp add: stub_map_valid_10 nw sw all val)
qed

text \<open>
  C9. When the tile handed to \<open>CleanUpRoadBits\<close> is not itself a valid tile, the result
  is the empty road-bit set, whatever the planned bits are.
\<close>

theorem CleanUpRoadBits_invalid_tile:
  "\<not> IsValidTile m tile \<Longrightarrow> CleanUpRoadBits m tile org_rb = ROAD_NONE"
  by (simp add: CleanUpRoadBits_def)

text \<open>Tile 64 lies beyond the 64 tiles of the example map.\<close>

theorem CleanUpRoadBits_invalid_tile_witness:
  "\<not> IsValidTile open_map 64 \<and> CleanUpRoadBits open_map 64 15 = ROAD_NONE"
proof -
  have inv: "\<not> IsValidTile open_map 64"
    by code_simp
  show ?thesis
    using CleanUpRoadBits_invalid_tile [OF inv, of 15] inv by simp
qed

section \<open>The edge precheck and the neighbour expansion\<close>

text \<open>
  C5. \<open>CanBuildRoadFromTo\<close> asserts that its two tiles are at Manhattan distance 1: at
  any other distance the assertion fails, which is no result at all. At distance 1 it
  returns whether the destination's slope is flat or a single incline and either both
  ends have the same incline at different heights or one of the ends is flat.
\<close>

theorem CanBuildRoadFromTo_spec:
  "(DistanceManhattan m tbegin tend = 1 \<longrightarrow>
      CanBuildRoadFromTo m tbegin tend = Inr (spec_edge_admissible m tbegin tend)) \<and>
   (DistanceManhattan m tbegin tend \<noteq> 1 \<longrightarrow>
      CanBuildRoadFromTo m tbegin tend = Inl AssertionFailed)"
  by (auto simp add: CanBuildRoadFromTo_def spec_edge_admissible_def Let_def split: prod.splits)

theorem CanBuildRoadFromTo_spec_witness:
  "DistanceManhattan open_map 9 10 = 1 \<and> CanBuildRoadFromTo open_map 9 10 = Inr True \<and>
   spec_edge_admissible open_map 9 10 \<and>
   DistanceManhattan open_map 9 11 \<noteq> 1 \<and> CanBuildRoadFromTo open_map 9 11 = Inl AssertionFailed"
proof -
  have a: "DistanceManhattan open_map 9 10 = 1" by code_simp
  have b: "DistanceManhattan open_map 9 11 = 2" by code_simp
  have c: "spec_edge_admissible open_map 9 10" by code_simp
  show ?thesis
    using CanBuildRoadFromTo_spec [of open_map 9 10] CanBuildRoadFromTo_spec [of open_map 9 11]
    by (simp add: a b c)
qed


lemma GetNeighbours_loop_Inr:
  "GetNeighbours_loop m tile ds acc = Inr ns \<Longrightarrow>
   length ns \<le> length acc + length ds \<and>
   set ns = set acc \<union>
     {t2. (\<exists>d \<in> set ds. t2 = tile + TileOffsByDiagDir m d) \<and> IsValidTile m t2 \<and>
          CanBuildRoadFromTo m tile t2 = Inr True \<and>
          (GetTileType m t2 = MP_CLEAR \<or> GetTileType m t2 = MP_TREES \<or> GetTileType m t2 = MP_ROAD)}"
proof (induction ds arbitrary: acc)
  case Nil
  then show ?case by simp
next
  case (Cons d ds)
  let ?t2 = "tile + TileOffsByDiagDir m d"
  show ?case
  proof (cases "IsValidTile m ?t2")
    case False
    with Cons.prems have "GetNeighbours_loop m tile ds acc = Inr ns" by simp
    from Cons.IH [OF this] False show ?thesis by auto
  next
    case True
    show ?thesis
    proof (cases "CanBuildRoadFromTo m tile ?t2")
      case (Inl e)
      with True Cons.prems show ?thesis by simp
    next
      case (Inr ok)
      show ?thesis
      proof (cases "ok \<and> (IsTileType m ?t2 MP_CLEAR \<or> IsTileType m ?t2 MP_TREES \<or> IsTileType m ?t2 MP_ROAD)")
        case yes: True
        with True Inr Cons.prems have "GetNeighbours_loop m tile ds (acc @ [?t2]) = Inr ns"
          by simp
        from Cons.IH [OF this] True Inr yes show ?thesis
          by (auto simp add: IsTileType_def)
      next
        case no: False
        with True Inr Cons.prems have "GetNeighbours_loop m tile ds acc = Inr ns"
          by auto
        from Cons.IH [OF this] True Inr no show ?thesis
          by (auto simp add: IsTileType_def)
      qed
    qed
  qed
qed

lemma CanBuildRoadFromTo_Inl:
  "CanBuildRoadFromTo m a b = Inl e \<Longrightarrow> e = AssertionFailed \<and> DistanceManhattan m a b \<noteq> 1"
  by (auto simp add: CanBuildRoadFromTo_def Let_def split: if_splits prod.splits)

lemma GetNeighbours_loop_Inl:
  "GetNeighbours_loop m tile ds acc = Inl e \<Longrightarrow>
   e = AssertionFailed \<and>
   (\<exists>d \<in> set ds. IsValidTile m (tile + TileOffsByDiagDir m d) \<and>
       DistanceManhattan m tile (tile + TileOffsByDiagDir m d) \<noteq> 1)"
proof (induction ds arbitrary: acc)
  case Nil
  then show ?case by simp
next
  case (Cons d ds)
  then show ?case
    by (auto simp add: Let_def dest: CanBuildRoadFromTo_Inl split: if_splits sum.splits)
qed

text \<open>
  C6. The neighbour expansion of a tile either stops at the failed assertion of the edge
  precheck (some valid offset tile is not at distance 1), or returns at most 4 tiles, and
  a tile is among them if and only if it is the offset of the current tile in one of the
  four directions, is a valid tile, passes the edge precheck and is clear ground, trees
  or road.
\<close>

theorem PublicRoad_GetNeighbours_spec:
  "case PublicRoad_GetNeighbours m tile of
     Inl e \<Rightarrow> e = AssertionFailed \<and>
       (\<exists>d. IsValidTile m (tile + TileOffsByDiagDir m d) \<and>
            DistanceManhattan m tile (tile + TileOffsByDiagDir m d) \<noteq> 1)
   | Inr ns \<Rightarrow> length ns \<le> 4 \<and> (\<forall>t2. (t2 \<in> set ns) = spec_neighbour m tile t2)"
proof (cases "PublicRoad_GetNeighbours m tile")
  case (Inl e)
  then show ?thesis
    using GetNeighbours_loop_Inl [of m tile diagdirs "[]" e]
    by (auto simp add: PublicRoad_GetNeighbours_def)
next
  case (Inr ns)
  then show ?thesis
    using GetNeighbours_loop_Inr [of m tile diagdirs "[]" ns]
    by (auto simp add: PublicRoad_GetNeighbours_def spec_neighbour_def set_diagdirs)
       (simp add: diagdirs_def)
qed

text \<open>On the open map the tile (1, 1) has its four neighbours; (2, 2) is none of them.\<close>

theorem PublicRoad_GetNeighbours_spec_witness:
  "PublicRoad_GetNeighbours open_map 9 = Inr [8, 17, 10, 1] \<and>
   spec_neighbour open_map 9 17 \<and> \<not> spec_neighbour open_map 9 18"
proof -
  have v: "PublicRoad_GetNeighbours open_map 9 = Inr [8, 17, 10, 1]"
    by code_simp
  have "\<forall>t2. (t2 \<in> set [8, 17, 10, 1]) = spec_neighbour open_map 9 t2"
    using PublicRoad_GetNeighbours_spec [of open_map 9] by (simp add: v)
  then have "(17 \<in> set [8, 17, 10, 1 :: TileIndex]) = spec_neighbour open_map 9 17"
    and "(18 \<in> set [8, 17, 10, 1 :: TileIndex]) = spec_neighbour open_map 9 18"
    by blast+
  then show ?thesis
    using v by simp
qed

section \<open>The heuristic never overestimates\<close>

lemma Delta_triangle: "Delta a c \<le> Delta a b + Delta b c"
  unfolding Delta_def by (cases "a < b"; cases "b < c"; cases "a < c"; simp)

lemma Delta_sym: "Delta a b = Delta b a"
  by (simp add: Delta_def)

lemma DistanceManhattan_triangle:
  "DistanceManhattan m a c \<le> DistanceManhattan m a b + DistanceManhattan m b c"
  unfolding DistanceManhattan_def
  using Delta_triangle [of "TileX m a" "TileX m c" "TileX m b"]
    Delta_triangle [of "TileY m a" "TileY m c" "TileY m b"]
  by linarith

lemma DistanceManhattan_sym: "DistanceManhattan m a b = DistanceManhattan m b a"
  by (simp add: DistanceManhattan_def Delta_sym [of "TileX m a"] Delta_sym [of "TileY m a"])

lemma neighbour_distance:
  assumes "PublicRoad_GetNeighbours m t = Inr ns" "t' \<in> set ns"
  shows "DistanceManhattan m t t' = 1"
proof -
  from GetNeighbours_loop_Inr [of m t diagdirs "[]" ns] assms
  have "CanBuildRoadFromTo m t t' = Inr True"
    by (auto simp add: PublicRoad_GetNeighbours_def)
  then show ?thesis
    by (auto simp add: CanBuildRoadFromTo_def split: if_splits)
qed

text \<open>
  C7. For a path in which every tile is followed by one of the neighbours the expansion
  returns for it, the heuristic value of the first tile for the last tile as target (their
  Manhattan distance) is at most the cost of the path, the sum of the constant step
  cost 1 returned by \<open>PublicRoad_CalculateG\<close>.
\<close>

theorem heuristic_admissible:
  "buildable_path m (a # p) \<Longrightarrow>
   PublicRoad_CalculateH m (last (a # p)) a \<le> path_cost (a # p)"
proof (induction p arbitrary: a)
  case Nil
  then show ?case
    by (simp add: PublicRoad_CalculateH_def DistanceManhattan_def Delta_def)
next
  case (Cons b p)
  from Cons.prems obtain ns where ns: "PublicRoad_GetNeighbours m a = Inr ns" "b \<in> set ns"
    and rest: "buildable_path m (b # p)"
    by (auto split: sum.splits)
  have step: "DistanceManhattan m b a = 1"
    using neighbour_distance [OF ns] by (simp add: DistanceManhattan_sym)
  have "DistanceManhattan m (last (b # p)) a
          \<le> DistanceManhattan m (last (b # p)) b + DistanceManhattan m b a"
    by (rule DistanceManhattan_triangle)
  with Cons.IH [OF rest] step show ?case
    by (simp add: PublicRoad_CalculateH_def PublicRoad_CalculateG_def)
qed

theorem heuristic_admissible_witness:
  "buildable_path open_map [9, 10, 11] \<and> PublicRoad_CalculateH open_map 11 9 = 2 \<and>
   path_cost [9, 10, 11] = 2"
proof -
  have b: "buildable_path open_map [9, 10, 11]" by code_simp
  have h: "PublicRoad_CalculateH open_map 11 9 = 2" by code_simp
  have "path_cost [9, 10, 11] \<le> 2" by (simp add: PublicRoad_CalculateG_def)
  with heuristic_admissible [OF b] h b show ?thesis by simp
qed


section \<open>The rounds of the generator\<close>

lemma map_after_Cons:
  "map_after search b (t # ts) m (Suc k) = map_after search b ts (fst (search m (xy b) (xy t))) k"
  by (induction k) simp_all

lemma search_fails_Cons:
  "search_fails search b (t # ts) m (Suc k) = search_fails search b ts (fst (search m (xy b) (xy t))) k"
  unfolding search_fails_def map_after_Cons by simp

lemma upt_0_Suc: "[0..<Suc n] = 0 # map Suc [0..<n]"
  by (simp add: upt_conv_Cons map_Suc_upt del: upt_Suc)

lemma connect_each_spec:
  "connect_each search b ts (m, acc) =
     (map_after search b ts m (length ts),
      acc @ map (nth ts) (filter (search_fails search b ts m) [0..<length ts]))"
proof (induction ts arbitrary: m acc)
  case Nil
  then show ?case by simp
next
  case (Cons t ts)
  obtain m' found where s: "search m (xy b) (xy t) = (m', found)"
    by (cases "search m (xy b) (xy t)")
  have f0: "search_fails search b (t # ts) m 0 = (\<not> found)"
    by (simp add: search_fails_def s)
  have m': "fst (search m (xy b) (xy t)) = m'" by (simp add: s)
  show ?case
    unfolding upt_0_Suc length_Cons
    by (simp add: s Cons.IH filter_map o_def search_fails_Cons map_after_Cons m' f0
          del: map_after.simps upt_Suc)
qed

lemma sorts_mset: "sorts srt \<Longrightarrow> mset (srt key xs) = mset xs"
  by (simp add: sorts_def)

lemma sorts_sorted: "sorts srt \<Longrightarrow> sorted (map key (srt key xs))"
  by (simp add: sorts_def)

lemma sorts_hd_least:
  assumes "sorts srt" "srt key xs = b # others"
  shows "\<forall>t \<in> set xs. key b \<le> key t"
proof -
  have "sorted (map key (b # others))"
    using sorts_sorted [OF assms(1), of key xs] by (simp add: assms(2))
  then have le: "\<forall>t \<in> set (b # others). key b \<le> key t"
    by auto
  have "set (b # others) = set xs"
    using sorts_mset [OF assms(1), of key xs] by (metis assms(2) mset_eq_setD)
  then show ?thesis using le by (simp only:)
qed

lemma sorts_nonempty: "sorts srt \<Longrightarrow> xs \<noteq> [] \<Longrightarrow> srt key xs \<noteq> []"
  using sorts_mset [of srt key xs] by (metis mset_zero_iff)

lemma sorts_Nil: "sorts srt \<Longrightarrow> srt key [] = []"
  using sorts_mset [of srt key "[]"] by simp

lemma round_unfold:
  assumes "sorts srt" "unconnected \<noteq> []"
  shows "\<exists>tbegin others rest.
           srt population unconnected = tbegin # others \<and>
           rest = srt (\<lambda>t. DistanceManhattan m (xy tbegin) (xy t)) others \<and>
           mset unconnected = add_mset tbegin (mset rest) \<and>
           GeneratePublicRoads_round srt search m unconnected =
             Inr (map_after search tbegin rest m (length rest),
                  map (nth rest) (filter (search_fails search tbegin rest m) [0..<length rest]))"
proof -
  obtain tbegin others where so: "srt population unconnected = tbegin # others"
    using sorts_nonempty [OF assms] by (cases "srt population unconnected") auto
  define rest where "rest = srt (\<lambda>t. DistanceManhattan m (xy tbegin) (xy t)) others"
  have "mset (srt population unconnected) = mset unconnected" "mset rest = mset others"
    using assms(1) by (simp_all add: sorts_mset rest_def)
  then have ms: "mset unconnected = add_mset tbegin (mset rest)"
    by (simp add: so)
  have "GeneratePublicRoads_round srt search m unconnected =
             Inr (map_after search tbegin rest m (length rest),
                  map (nth rest) (filter (search_fails search tbegin rest m) [0..<length rest]))"
    by (simp add: GeneratePublicRoads_round_def so rest_def [symmetric] connect_each_spec)
  with so rest_def ms show ?thesis by blast
qed

text \<open>
  C8. In a round on a non-empty unconnected list, with a sort that orders ascending: the
  list is sorted by population and its head, of the smallest population, is taken off as
  the start; the others are sorted by Manhattan distance from the start; the searches run
  in the order of that list, each on the map the one before left; and the next round's
  unconnected list holds, in the same order, exactly the towns whose search failed.
\<close>

theorem round_spec:
  assumes "sorts srt" "unconnected \<noteq> []"
  shows "\<exists>tbegin others rest.
           srt population unconnected = tbegin # others \<and>
           rest = srt (\<lambda>t. DistanceManhattan m (xy tbegin) (xy t)) others \<and>
           (\<forall>t \<in> set unconnected. population tbegin \<le> population t) \<and>
           mset unconnected = add_mset tbegin (mset rest) \<and>
           sorted (map (\<lambda>t. DistanceManhattan m (xy tbegin) (xy t)) rest) \<and>
           GeneratePublicRoads_round srt search m unconnected =
             Inr (map_after search tbegin rest m (length rest),
                  map (nth rest) (filter (search_fails search tbegin rest m) [0..<length rest]))"
proof -
  from round_unfold [OF assms, of m search] obtain tbegin others rest where
    so: "srt population unconnected = tbegin # others" and
    rest: "rest = srt (\<lambda>t. DistanceManhattan m (xy tbegin) (xy t)) others" and
    ms: "mset unconnected = add_mset tbegin (mset rest)" and
    run: "GeneratePublicRoads_round srt search m unconnected =
            Inr (map_after search tbegin rest m (length rest),
                 map (nth rest) (filter (search_fails search tbegin rest m) [0..<length rest]))"
    by blast
  have least: "\<forall>t \<in> set unconnected. population tbegin \<le> population t"
    using assms(1) so by (rule sorts_hd_least)
  have srtd: "sorted (map (\<lambda>t. DistanceManhattan m (xy tbegin) (xy t)) rest)"
    unfolding rest using assms(1) by (rule sorts_sorted)
  from so rest least ms srtd run show ?thesis by blast
qed

lemma sorts_sort_key: "sorts sort_key"
  by (simp add: sorts_def)

text \<open>With the three towns: \<open>town_B\<close> is the start, \<open>town_A\<close> is searched before
  \<open>town_C\<close>, and only \<open>town_C\<close>, whose search fails, is left for the next round.\<close>

theorem round_spec_witness:
  "sorts sort_key \<and> [town_A, town_B, town_C] \<noteq> [] \<and>
   sort_key population [town_A, town_B, town_C] = [town_B, town_C, town_A] \<and>
   sort_key (\<lambda>t. DistanceManhattan open_map (xy town_B) (xy t)) [town_C, town_A]
     = [town_A, town_C] \<and>
   map_sum id snd
     (GeneratePublicRoads_round sort_key blocked_search open_map [town_A, town_B, town_C])
     = Inr [town_C]"
proof -
  have ne: "[town_A, town_B, town_C] \<noteq> []" by simp
  have s1: "sort_key population [town_A, town_B, town_C] = [town_B, town_C, town_A]"
    by code_simp
  have s2: "sort_key (\<lambda>t. DistanceManhattan open_map (xy town_B) (xy t)) [town_C, town_A]
              = [town_A, town_C]"
    by code_simp
  have f: "map (nth [town_A, town_C])
             (filter (search_fails blocked_search town_B [town_A, town_C] open_map)
                [0..<length [town_A, town_C]])
           = [town_C]"
    by code_simp
  from round_spec [OF sorts_sort_key ne, of open_map blocked_search]
  obtain tbegin others rest where
    a: "sort_key population [town_A, town_B, town_C] = tbegin # others" and
    b: "rest = sort_key (\<lambda>t. DistanceManhattan open_map (xy tbegin) (xy t)) others" and
    r: "GeneratePublicRoads_round sort_key blocked_search open_map [town_A, town_B, town_C] =
          Inr (map_after blocked_search tbegin rest open_map (length rest),
               map (nth rest) (filter (search_fails blocked_search tbegin rest open_map)
                                 [0..<length rest]))"
    by blast
  from a have tb: "tbegin = town_B" and ot: "others = [town_C, town_A]"
    unfolding s1 by simp_all
  from b have rest: "rest = [town_A, town_C]"
    unfolding tb ot s2 .
  from r have "map_sum id snd
     (GeneratePublicRoads_round sort_key blocked_search open_map [town_A, town_B, town_C])
     = Inr [town_C]"
    unfolding tb rest f by simp
  then show ?thesis
    using sorts_sort_key s1 s2 by simp
qed

section \<open>The generator returns\<close>

lemma round_shrinks:
  assumes "sorts srt" "GeneratePublicRoads_round srt search m u = Inr (m', u')"
  shows "length u' < length u"
proof -
  from assms(2) have ne: "u \<noteq> []"
    using sorts_Nil [OF assms(1), of population] by (auto simp add: GeneratePublicRoads_round_def)
  from round_unfold [OF assms(1) ne, of m search] assms(2)
  obtain tbegin rest where ms: "mset u = add_mset tbegin (mset rest)"
    and u': "u' = map (nth rest) (filter (search_fails search tbegin rest m) [0..<length rest])"
    by auto
  have "length u' \<le> length rest"
    unfolding u' by (metis length_map length_filter_le length_upt diff_zero)
  moreover have "length u = Suc (length rest)"
    using ms by (metis size_mset size_add_mset)
  ultimately show ?thesis by simp
qed

lemma round_Inl:
  assumes "sorts srt"
  shows "(GeneratePublicRoads_round srt search m u = Inl e) = (u = [] \<and> e = OutOfBounds)"
proof (cases "u = []")
  case True
  then have "srt population u = []" using assms by (simp add: sorts_Nil)
  with True show ?thesis by (auto simp add: GeneratePublicRoads_round_def)
next
  case False
  from round_unfold [OF assms False, of m search] False show ?thesis by auto
qed

lemma rounds_returns:
  assumes "sorts srt"
  shows "u \<noteq> [] \<Longrightarrow> length u \<le> n \<Longrightarrow>
         \<exists>m'. GeneratePublicRoads_rounds n srt search m u = Some (Inr m') \<and>
              GeneratePublicRoads_loop srt search m u = Some (Inr m')"
proof (induction n arbitrary: m u)
  case 0
  then show ?case by simp
next
  case (Suc n)
  from round_Inl [OF assms, of search m u] Suc.prems(1)
  obtain m1 u1 where r: "GeneratePublicRoads_round srt search m u = Inr (m1, u1)"
    by (cases "GeneratePublicRoads_round srt search m u") auto
  show ?case
  proof (cases "u1 = []")
    case True
    with r show ?thesis
      by (subst GeneratePublicRoads_loop.simps) simp
  next
    case False
    from round_shrinks [OF assms r] Suc.prems(2) have "length u1 \<le> n" by simp
    from Suc.IH [OF False this, of m1] obtain m' where
      "GeneratePublicRoads_rounds n srt search m1 u1 = Some (Inr m')"
      "GeneratePublicRoads_loop srt search m1 u1 = Some (Inr m')" by blast
    with r False show ?thesis
      by (subst GeneratePublicRoads_loop.simps) simp
  qed
qed





text \<open>
  C10. A round reads the first element of the sorted vector: that read is out of bounds
  exactly when the round starts with no settlement. A run with no settlement at all ends
  in that out-of-bounds read; a run that starts with at least one settlement never does
  (the loop only goes round again with a non-empty list) and returns.
\<close>

theorem GeneratePublicRoads_needs_a_town:
  assumes "sorts srt"
  shows "((GeneratePublicRoads_round srt search m u = Inl OutOfBounds) = (u = [])) \<and>
         GeneratePublicRoads srt search m [] = Some (Inl OutOfBounds) \<and>
         (all_towns \<noteq> [] \<longrightarrow>
            GeneratePublicRoads srt search m all_towns \<noteq> Some (Inl OutOfBounds) \<and>
            GeneratePublicRoads srt search m all_towns \<noteq> None)"
proof (intro conjI impI)
  show "(GeneratePublicRoads_round srt search m u = Inl OutOfBounds) = (u = [])"
    using round_Inl [OF assms, of search m u OutOfBounds] by simp
  have "GeneratePublicRoads_round srt search m [] = Inl OutOfBounds"
    using round_Inl [OF assms, of search m "[]" OutOfBounds] by simp
  then show "GeneratePublicRoads srt search m [] = Some (Inl OutOfBounds)"
    unfolding GeneratePublicRoads_def
    by (subst GeneratePublicRoads_loop.simps) simp
next
  assume "all_towns \<noteq> []"
  from rounds_returns [OF assms this order_refl, of search m]
  obtain m' where "GeneratePublicRoads srt search m all_towns = Some (Inr m')"
    unfolding GeneratePublicRoads_def by blast
  then show "GeneratePublicRoads srt search m all_towns \<noteq> Some (Inl OutOfBounds)"
    and "GeneratePublicRoads srt search m all_towns \<noteq> None"
    by simp_all
qed

theorem GeneratePublicRoads_needs_a_town_witness:
  "sorts sort_key \<and>
   GeneratePublicRoads sort_key blocked_search open_map [] = Some (Inl OutOfBounds) \<and>
   [town_A] \<noteq> [] \<and>
   GeneratePublicRoads sort_key blocked_search open_map [town_A] \<noteq> Some (Inl OutOfBounds) \<and>
   GeneratePublicRoads sort_key blocked_search open_map [town_A] \<noteq> None"
  using GeneratePublicRoads_needs_a_town [OF sorts_sort_key, of blocked_search open_map "[]" "[town_A]"]
    sorts_sort_key
  by simp

section \<open>Materialization is idempotent and only adds road bits\<close>

text \<open>Writing a node's bits changes one tile and leaves the map's geometry alone.\<close>

lemma WriteRoad_geom [simp]:
  "MapLogX (WriteRoad m tile rb town) = MapLogX m"
  "MapLogY (WriteRoad m tile rb town) = MapLogY m"
  by (simp_all add: WriteRoad_def SetRoadBits_def MakeRoadNormal_def)

lemma WriteRoad_other: "t \<noteq> tile \<Longrightarrow> tiles (WriteRoad m tile rb town) t = tiles m t"
  by (simp add: WriteRoad_def SetRoadBits_def MakeRoadNormal_def)

lemma WriteRoad_tile:
  "tiles (WriteRoad m tile rb town) tile = spec_written_tile (tiles m tile) rb town"
  by (simp add: WriteRoad_def SetRoadBits_def MakeRoadNormal_def spec_written_tile_def
      GetTileType_def GetRoadBits_def ROADTYPES_ROAD_def)

lemma WriteRoad_idem:
  "GetTileType m tile = MP_ROAD \<Longrightarrow>
   GetRoadBits m tile ROADTYPE_ROAD OR rb = GetRoadBits m tile ROADTYPE_ROAD \<Longrightarrow>
   WriteRoad m tile rb town = m"
  by (simp add: WriteRoad_def SetRoadBits_def GetRoadBits_def)


lemma geom_eq:
  assumes "MapLogX m' = MapLogX m"
  shows "TileX m' = TileX m" "TileY m' = TileY m"
    "DistanceManhattan m' = DistanceManhattan m"
    "DiagdirBetweenTiles m' = DiagdirBetweenTiles m"
    "RoadBitsTowards m' = RoadBitsTowards m"
    "NodeRoadBits m' = NodeRoadBits m"
    "TileAddByDiagDir m' = TileAddByDiagDir m"
proof -
  show x: "TileX m' = TileX m" and y: "TileY m' = TileY m"
    by (simp_all add: fun_eq_iff TileX_def TileY_def assms)
  show "DistanceManhattan m' = DistanceManhattan m"
    by (simp add: fun_eq_iff DistanceManhattan_def x y)
  show d: "DiagdirBetweenTiles m' = DiagdirBetweenTiles m"
    by (simp add: fun_eq_iff DiagdirBetweenTiles_def x y)
  show r: "RoadBitsTowards m' = RoadBitsTowards m"
    by (simp add: fun_eq_iff RoadBitsTowards_def d)
  show "NodeRoadBits m' = NodeRoadBits m"
    unfolding fun_eq_iff NodeRoadBits_def r by simp
  have "TileOffsByDiagDir m' d = TileOffsByDiagDir m d" for d
    by (cases d) (simp_all add: assms)
  then show "TileAddByDiagDir m' = TileAddByDiagDir m"
    by (simp add: fun_eq_iff TileAddByDiagDir_def)
qed

lemma WriteRoad_type: "GetTileType (WriteRoad m tile rb town) tile = MP_ROAD"
  by (simp add: GetTileType_def WriteRoad_tile spec_written_tile_def)

lemma WriteRoad_bits:
  "GetRoadBits (WriteRoad m tile rb town) tile ROADTYPE_ROAD =
     (if GetTileType m tile = MP_ROAD then GetRoadBits m tile ROADTYPE_ROAD OR rb else rb)"
  by (simp add: GetRoadBits_def GetTileType_def WriteRoad_tile spec_written_tile_def)

lemma or_absorb_trans:
  fixes a b c :: RoadBits
  shows "a OR b = b \<Longrightarrow> b OR c = c \<Longrightarrow> a OR c = c"
  by (metis or.assoc)

lemma WriteRoad_mono:
  "GetTileType m t = MP_ROAD \<Longrightarrow>
   GetTileType (WriteRoad m tile rb town) t = MP_ROAD \<and>
   GetRoadBits m t ROADTYPE_ROAD OR GetRoadBits (WriteRoad m tile rb town) t ROADTYPE_ROAD
     = GetRoadBits (WriteRoad m tile rb town) t ROADTYPE_ROAD"
proof (cases "t = tile")
  case True
  assume "GetTileType m t = MP_ROAD"
  with True show ?thesis
    by (simp add: WriteRoad_type WriteRoad_bits or.assoc [symmetric])
next
  case False
  assume "GetTileType m t = MP_ROAD"
  with False show ?thesis
    by (simp add: GetTileType_def GetRoadBits_def WriteRoad_other)
qed

lemma FoundEndNode_loop_frame:
  "FoundEndNode_loop closest m child path = Inr m' \<Longrightarrow>
   MapLogX m' = MapLogX m \<and> MapLogY m' = MapLogY m \<and>
   (\<forall>t. t \<notin> set path \<longrightarrow> tiles m' t = tiles m t) \<and>
   (\<forall>t. GetTileType m t = MP_ROAD \<longrightarrow>
        GetTileType m' t = MP_ROAD \<and>
        GetRoadBits m t ROADTYPE_ROAD OR GetRoadBits m' t ROADTYPE_ROAD
          = GetRoadBits m' t ROADTYPE_ROAD)"
proof (induction path arbitrary: m child)
  case Nil
  then show ?case by simp
next
  case (Cons tile rest)
  let ?parent = "case rest of [] \<Rightarrow> None | tile2 # _ \<Rightarrow> Some tile2"
  from Cons.prems obtain rb where rb: "NodeRoadBits m child tile ?parent = Inr rb"
    by (auto simp add: Let_def split: sum.splits)
  define m1 where "m1 = (if child \<noteq> None \<or> ?parent \<noteq> None
                          then WriteRoad m tile rb (closest tile) else m)"
  from Cons.prems rb have rest: "FoundEndNode_loop closest m1 (Some tile) rest = Inr m'"
    by (simp add: Let_def m1_def)
  note ih = Cons.IH [OF rest]
  have g1: "MapLogX m1 = MapLogX m" "MapLogY m1 = MapLogY m"
    by (simp_all add: m1_def)
  have o1: "t \<noteq> tile \<Longrightarrow> tiles m1 t = tiles m t" for t
    by (simp add: m1_def WriteRoad_other)
  have mono1: "GetTileType m t = MP_ROAD \<Longrightarrow>
     GetTileType m1 t = MP_ROAD \<and>
     GetRoadBits m t ROADTYPE_ROAD OR GetRoadBits m1 t ROADTYPE_ROAD
       = GetRoadBits m1 t ROADTYPE_ROAD" for t
    using WriteRoad_mono [of m t tile rb "closest tile"] by (simp add: m1_def)
  show ?case
  proof (intro conjI allI impI)
    show "MapLogX m' = MapLogX m" "MapLogY m' = MapLogY m"
      using ih g1 by simp_all
    show "tiles m' t = tiles m t" if "t \<notin> set (tile # rest)" for t
      using that ih o1 [of t] by simp
    show "GetTileType m' t = MP_ROAD" if "GetTileType m t = MP_ROAD" for t
      using that ih mono1 [of t] by blast
    show "GetRoadBits m t ROADTYPE_ROAD OR GetRoadBits m' t ROADTYPE_ROAD
            = GetRoadBits m' t ROADTYPE_ROAD" if "GetTileType m t = MP_ROAD" for t
      using that ih mono1 [of t] or_absorb_trans by blast
  qed
qed

lemma FoundEndNode_loop_written:
  "FoundEndNode_loop closest m child path = Inr m' \<Longrightarrow> path_written m' child path"
proof (induction path arbitrary: m child)
  case Nil
  then show ?case by simp
next
  case (Cons tile rest)
  let ?parent = "case rest of [] \<Rightarrow> None | tile2 # _ \<Rightarrow> Some tile2"
  from Cons.prems obtain rb where rb: "NodeRoadBits m child tile ?parent = Inr rb"
    by (auto simp add: Let_def split: sum.splits)
  define m1 where "m1 = (if child \<noteq> None \<or> ?parent \<noteq> None
                          then WriteRoad m tile rb (closest tile) else m)"
  from Cons.prems rb have rest: "FoundEndNode_loop closest m1 (Some tile) rest = Inr m'"
    by (simp add: Let_def m1_def)
  note fr = FoundEndNode_loop_frame [OF rest]
  have gm: "MapLogX m' = MapLogX m" using fr by (simp add: m1_def)
  have rb': "NodeRoadBits m' child tile ?parent = Inr rb"
    using rb by (simp add: geom_eq(6) [OF gm])
  have head: "GetTileType m' tile = MP_ROAD \<and>
     GetRoadBits m' tile ROADTYPE_ROAD OR rb = GetRoadBits m' tile ROADTYPE_ROAD"
    if w: "child \<noteq> None \<or> ?parent \<noteq> None"
  proof -
    from w have m1: "m1 = WriteRoad m tile rb (closest tile)" by (simp add: m1_def)
    have t1: "GetTileType m1 tile = MP_ROAD" by (simp add: m1 WriteRoad_type)
    have a: "rb OR GetRoadBits m1 tile ROADTYPE_ROAD = GetRoadBits m1 tile ROADTYPE_ROAD"
      unfolding m1 WriteRoad_bits
      by (cases "GetTileType m tile = MP_ROAD") (simp_all add: ac_simps)
    from fr t1 have ty: "GetTileType m' tile = MP_ROAD"
      and b: "GetRoadBits m1 tile ROADTYPE_ROAD OR GetRoadBits m' tile ROADTYPE_ROAD
             = GetRoadBits m' tile ROADTYPE_ROAD"
      by blast+
    have "rb OR GetRoadBits m' tile ROADTYPE_ROAD = GetRoadBits m' tile ROADTYPE_ROAD"
      using a b by (rule or_absorb_trans)
    then have "GetRoadBits m' tile ROADTYPE_ROAD OR rb = GetRoadBits m' tile ROADTYPE_ROAD"
      by (simp only: or.commute [of rb])
    with ty show ?thesis ..
  qed
  show ?case
    using Cons.IH [OF rest] rb' head by (simp add: Let_def)
qed

lemma FoundEndNode_loop_fixpoint:
  "path_written m child path \<Longrightarrow> FoundEndNode_loop closest m child path = Inr m"
proof (induction path arbitrary: child)
  case Nil
  then show ?case by simp
next
  case (Cons tile rest)
  then show ?case
    by (auto simp add: Let_def WriteRoad_idem split: sum.splits)
qed

lemma adjacent_path_geom:
  assumes "MapLogX m' = MapLogX m"
  shows "adjacent_path m' p = adjacent_path m p"
proof -
  have d: "DistanceManhattan m' = DistanceManhattan m"
    using assms by (rule geom_eq(3))
  show ?thesis
    by (induction p rule: induct_list012) (simp_all add: d)
qed

lemma node_bits_at_geom:
  assumes "MapLogX m' = MapLogX m"
  shows "node_bits_at m' child p i = node_bits_at m child p i"
  unfolding node_bits_at_def geom_eq(6) [OF assms] ..

lemma DistanceManhattan_1_dir:
  "DistanceManhattan m a b = 1 \<Longrightarrow> \<exists>d. DiagdirBetweenTiles m a b = Some d"
  by (auto simp add: DistanceManhattan_def DiagdirBetweenTiles_def Delta_def Let_def
      split: if_splits)

lemma RoadBitsTowards_total:
  "DistanceManhattan m a b = 1 \<Longrightarrow> \<exists>rb. RoadBitsTowards m a b = Inr rb"
  using DistanceManhattan_1_dir [of m a b] by (auto simp add: RoadBitsTowards_def)

lemma NodeRoadBits_total:
  assumes "\<And>c. child = Some c \<Longrightarrow> DistanceManhattan m tile c = 1"
    and "\<And>p. parent = Some p \<Longrightarrow> DistanceManhattan m tile p = 1"
  shows "\<exists>rb. NodeRoadBits m child tile parent = Inr rb"
proof -
  have c: "\<exists>rb. RoadBitsTowards m tile c = Inr rb" if "child = Some c" for c
    using assms(1) [OF that] by (rule RoadBitsTowards_total)
  have p: "\<exists>rb. RoadBitsTowards m tile p = Inr rb" if "parent = Some p" for p
    using assms(2) [OF that] by (rule RoadBitsTowards_total)
  show ?thesis
    unfolding NodeRoadBits_def
    by (cases child; cases parent) (use c p in \<open>auto split: sum.splits\<close>)
qed

lemma parent_of_rest:
  "(case rest of [] \<Rightarrow> None | tile2 # x \<Rightarrow> Some tile2) =
     (if 0 < length rest then Some (rest ! 0) else None)"
  by (cases rest) simp_all

lemma FoundEndNode_loop_total:
  "adjacent_path m ((case child of None \<Rightarrow> [] | Some c \<Rightarrow> [c]) @ path) \<Longrightarrow>
   \<exists>m'. FoundEndNode_loop closest m child path = Inr m'"
proof (induction path arbitrary: m child)
  case Nil
  then show ?case by simp
next
  case (Cons tile rest)
  let ?parent = "case rest of [] \<Rightarrow> None | tile2 # _ \<Rightarrow> Some tile2"
  have c: "DistanceManhattan m tile c = 1" if "child = Some c" for c
    using Cons.prems that by (simp add: DistanceManhattan_sym [of m tile c])
  have adj: "adjacent_path m (tile # rest)"
    using Cons.prems by (cases child) simp_all
  then have p: "DistanceManhattan m tile p = 1" if "?parent = Some p" for p
    using that by (cases rest) simp_all
  from NodeRoadBits_total [of child m tile ?parent] c p
  obtain rb where rb: "NodeRoadBits m child tile ?parent = Inr rb" by blast
  define m1 where "m1 = (if child \<noteq> None \<or> ?parent \<noteq> None
                          then WriteRoad m tile rb (closest tile) else m)"
  have g: "MapLogX m1 = MapLogX m" by (simp add: m1_def)
  from adj have "adjacent_path m1 ((case Some tile of None \<Rightarrow> [] | Some c \<Rightarrow> [c]) @ rest)"
    by (simp add: adjacent_path_geom [OF g])
  from Cons.IH [OF this] obtain m' where
    "FoundEndNode_loop closest m1 (Some tile) rest = Inr m'" by blast
  with rb show ?case by (simp add: Let_def m1_def)
qed

lemma node_bits_at_Cons_Suc:
  "node_bits_at m child (tile # rest) (Suc j) = node_bits_at m (Some tile) rest j"
  by (cases j) (simp_all add: node_bits_at_def)

lemma node_bits_at_Cons_0:
  "node_bits_at m child (tile # rest) 0 =
     NodeRoadBits m child tile (case rest of [] \<Rightarrow> None | tile2 # x \<Rightarrow> Some tile2)"
  by (cases rest) (simp_all add: node_bits_at_def)

lemma FoundEndNode_loop_exact:
  "FoundEndNode_loop closest m child path = Inr m' \<Longrightarrow> distinct path \<Longrightarrow>
   child \<noteq> None \<or> length path \<noteq> 1 \<Longrightarrow> i < length path \<Longrightarrow>
   \<exists>rb. node_bits_at m child path i = Inr rb \<and>
        tiles m' (path ! i) = spec_written_tile (tiles m (path ! i)) rb (closest (path ! i))"
proof (induction path arbitrary: m child i)
  case Nil
  then show ?case by simp
next
  case (Cons tile rest)
  let ?parent = "case rest of [] \<Rightarrow> None | tile2 # _ \<Rightarrow> Some tile2"
  from Cons.prems(1) obtain rb0 where rb0: "NodeRoadBits m child tile ?parent = Inr rb0"
    by (auto simp add: Let_def split: sum.splits)
  have w: "child \<noteq> None \<or> ?parent \<noteq> None"
    using Cons.prems(3) by (cases rest) auto
  define m1 where "m1 = WriteRoad m tile rb0 (closest tile)"
  from Cons.prems(1) rb0 w have rest: "FoundEndNode_loop closest m1 (Some tile) rest = Inr m'"
    by (simp add: Let_def m1_def)
  note fr = FoundEndNode_loop_frame [OF rest]
  show ?case
  proof (cases i)
    case 0
    have "tile \<notin> set rest" using Cons.prems(2) by simp
    with fr have "tiles m' tile = tiles m1 tile" by blast
    then show ?thesis
      using 0 rb0 by (simp add: node_bits_at_Cons_0 m1_def WriteRoad_tile)
  next
    case (Suc j)
    with Cons.prems have j: "j < length rest" and d: "distinct rest" and ne: "rest ! j \<noteq> tile"
      by auto
    from Cons.IH [OF rest d _ j] obtain rb where
      rb: "node_bits_at m1 (Some tile) rest j = Inr rb" and
      t: "tiles m' (rest ! j) = spec_written_tile (tiles m1 (rest ! j)) rb (closest (rest ! j))"
      by auto
    have g: "MapLogX m1 = MapLogX m" by (simp add: m1_def)
    have "tiles m1 (rest ! j) = tiles m (rest ! j)"
      using ne by (simp add: m1_def WriteRoad_other)
    with rb t show ?thesis
      by (simp add: Suc node_bits_at_Cons_Suc node_bits_at_geom [OF g])
  qed
qed

lemma FoundEndNode_single:
  "length path = 1 \<Longrightarrow> PublicRoad_FoundEndNode closest m path = Inr m"
  by (cases path) (simp_all add: PublicRoad_FoundEndNode_def NodeRoadBits_def Let_def)

text \<open>
  C3. For a path that is a chain of adjacent tiles, \<open>PublicRoad_FoundEndNode\<close> returns a
  map, and run again on that map with the same path it returns it unchanged (the second
  run is a no-op). A run keeps every road tile a road tile and removes none of its road
  bits, and touches no tile off the path; a path of one node changes nothing. On a path
  of distinct tiles with more than one node, the tile of each node ends as the
  specification describes: a road tile gets the node's bits ORed into its set, any other
  tile becomes a plain road tile with exactly the node's bits, of the closest town, owned
  by the town, with no tram owner.
\<close>

theorem FoundEndNode_idempotent_monotonic:
  assumes "adjacent_path m path"
  shows "\<exists>m'. PublicRoad_FoundEndNode closest m path = Inr m' \<and>
           PublicRoad_FoundEndNode closest m' path = Inr m' \<and>
           (\<forall>t. GetTileType m t = MP_ROAD \<longrightarrow>
                GetTileType m' t = MP_ROAD \<and>
                GetRoadBits m t ROADTYPE_ROAD OR GetRoadBits m' t ROADTYPE_ROAD
                  = GetRoadBits m' t ROADTYPE_ROAD) \<and>
           (\<forall>t. t \<notin> set path \<longrightarrow> tiles m' t = tiles m t) \<and>
           (length path = 1 \<longrightarrow> m' = m) \<and>
           (distinct path \<and> length path \<noteq> 1 \<longrightarrow>
              (\<forall>i < length path. \<exists>rb.
                  node_bits_at m None path i = Inr rb \<and>
                  tiles m' (path ! i) =
                    spec_written_tile (tiles m (path ! i)) rb (closest (path ! i))))"
proof -
  from FoundEndNode_loop_total [of m None path closest] assms
  obtain m' where run: "FoundEndNode_loop closest m None path = Inr m'"
    by auto
  have again: "FoundEndNode_loop closest m' None path = Inr m'"
    using FoundEndNode_loop_written [OF run] by (rule FoundEndNode_loop_fixpoint)
  note fr = FoundEndNode_loop_frame [OF run]
  have single: "m' = m" if "length path = 1"
    using FoundEndNode_single [OF that, of closest m] run
    by (simp add: PublicRoad_FoundEndNode_def)
  have exact: "\<exists>rb. node_bits_at m None path i = Inr rb \<and>
      tiles m' (path ! i) = spec_written_tile (tiles m (path ! i)) rb (closest (path ! i))"
    if "distinct path" "length path \<noteq> 1" "i < length path" for i
    using FoundEndNode_loop_exact [OF run that(1) _ that(3)] that(2) by simp
  show ?thesis
    unfolding PublicRoad_FoundEndNode_def
    using run again fr single exact by blast
qed

text \<open>On the map with the road stub, from (3, 1) back to (1, 1): the road tile (2, 1) gets
  both directions of the path ORed into its north-west bit, (3, 1) becomes a plain road
  tile of town 5 with the one bit towards (2, 1), and the house is left alone.\<close>

theorem FoundEndNode_idempotent_monotonic_witness:
  "adjacent_path stub_map [11, 10, 9] \<and>
   (\<exists>m'. PublicRoad_FoundEndNode (\<lambda>t. 5) stub_map [11, 10, 9] = Inr m' \<and>
         PublicRoad_FoundEndNode (\<lambda>t. 5) m' [11, 10, 9] = Inr m' \<and>
         GetRoadBits m' 10 ROADTYPE_ROAD = 11 \<and>
         tiles m' 11 =
           clear_tile\<lparr>tile_type := MP_ROAD, road_bits := ROAD_NE, road_types := ROADTYPES_ROAD,
                      town_id := 5, tile_owner := OWNER_TOWN\<rparr> \<and>
         tiles m' 2 = house_tile)"
proof -
  have adj: "adjacent_path stub_map [11, 10, 9]" by code_simp
  have d: "distinct [11, 10, 9 :: TileIndex]" "length [11, 10, 9 :: TileIndex] \<noteq> 1"
    "2 \<notin> set [11, 10, 9 :: TileIndex]"
    by simp_all
  have b0: "node_bits_at stub_map None [11, 10, 9] 0 = Inr 8" by code_simp
  have b1: "node_bits_at stub_map None [11, 10, 9] 1 = Inr 10" by code_simp
  have t0: "spec_written_tile (tiles stub_map 11) 8 5 =
              clear_tile\<lparr>tile_type := MP_ROAD, road_bits := ROAD_NE,
                         road_types := ROADTYPES_ROAD, town_id := 5, tile_owner := OWNER_TOWN\<rparr>"
    by code_simp
  have t1: "road_bits (spec_written_tile (tiles stub_map 10) 10 5) = 11" by code_simp
  have t2: "tiles stub_map 2 = house_tile" by code_simp
  from FoundEndNode_idempotent_monotonic [OF adj, of "\<lambda>t. 5"] obtain m' where
    run: "PublicRoad_FoundEndNode (\<lambda>t. 5) stub_map [11, 10, 9] = Inr m'" and
    again: "PublicRoad_FoundEndNode (\<lambda>t. 5) m' [11, 10, 9] = Inr m'" and
    frame: "\<forall>t. t \<notin> set [11, 10, 9] \<longrightarrow> tiles m' t = tiles stub_map t" and
    exact: "distinct [11, 10, 9 :: TileIndex] \<and> length [11, 10, 9 :: TileIndex] \<noteq> 1 \<longrightarrow>
      (\<forall>i < length [11, 10, 9 :: TileIndex]. \<exists>rb.
          node_bits_at stub_map None [11, 10, 9] i = Inr rb \<and>
          tiles m' ([11, 10, 9] ! i) =
            spec_written_tile (tiles stub_map ([11, 10, 9] ! i)) rb 5)"
    by blast
  from exact d have ex: "\<exists>rb. node_bits_at stub_map None [11, 10, 9] i = Inr rb \<and>
      tiles m' ([11, 10, 9] ! i) = spec_written_tile (tiles stub_map ([11, 10, 9] ! i)) rb 5"
    if "i < 3" for i
    using that by simp
  from ex [of 0] b0 have w0: "tiles m' 11 = spec_written_tile (tiles stub_map 11) 8 5"
    by simp
  from ex [of 1] b1 have w1: "tiles m' 10 = spec_written_tile (tiles stub_map 10) 10 5"
    by simp
  from frame d(3) have w2: "tiles m' 2 = tiles stub_map 2" by blast
  have "GetRoadBits m' 10 ROADTYPE_ROAD = 11"
    by (simp add: GetRoadBits_def w1 t1)
  with adj run again w0 w2 show ?thesis
    by (simp add: t0 t2)
qed

section \<open>The connectivity invariant under materialization\<close>

lemma tile_decomp: "unat t = TileY m t * 2 ^ MapLogX m + TileX m t"
proof -
  have "TileX m t = unat (take_bit (MapLogX m) t)"
    by (simp only: TileX_def take_bit_eq_mask)
  also have "\<dots> = take_bit (MapLogX m) (unat t)"
    by (rule unsigned_take_bit_eq)
  also have "\<dots> = unat t mod 2 ^ MapLogX m"
    by (rule take_bit_eq_mod)
  finally have x: "TileX m t = unat t mod 2 ^ MapLogX m" .
  have "TileY m t = drop_bit (MapLogX m) (unat t)"
    by (simp only: TileY_def unat_drop_bit_eq)
  also have "\<dots> = unat t div 2 ^ MapLogX m"
    by (rule drop_bit_eq_div)
  finally have y: "TileY m t = unat t div 2 ^ MapLogX m" .
  show ?thesis
    unfolding x y by (rule div_mult_mod_eq [symmetric])
qed

lemma word_of_unat_sum:
  fixes a b :: TileIndex
  assumes "unat b = unat a + k"
  shows "b = a + of_nat k"
proof -
  have "(of_nat (unat b) :: TileIndex) = of_nat (unat a + k)"
    using assms by simp
  then show ?thesis by simp
qed

lemma DiagdirBetweenTiles_step:
  assumes "DistanceManhattan m a b = 1" "DiagdirBetweenTiles m a b = Some d"
  shows "TileAddByDiagDir m a d = b"
proof -
  note da = tile_decomp [of a m] and db = tile_decomp [of b m]
  from assms consider
      (SW) "d = DIAGDIR_SW" "TileX m b = TileX m a + 1" "TileY m b = TileY m a"
    | (NE) "d = DIAGDIR_NE" "TileX m a = TileX m b + 1" "TileY m b = TileY m a"
    | (SE) "d = DIAGDIR_SE" "TileY m b = TileY m a + 1" "TileX m b = TileX m a"
    | (NW) "d = DIAGDIR_NW" "TileY m a = TileY m b + 1" "TileX m b = TileX m a"
    by (auto simp add: DistanceManhattan_def DiagdirBetweenTiles_def Delta_def Let_def
        split: if_splits)
  then show ?thesis
  proof cases
    case SW
    then have "unat b = unat a + 1" using da db by simp
    from word_of_unat_sum [OF this] SW(1) show ?thesis
      by (simp add: TileAddByDiagDir_def)
  next
    case NE
    then have "unat a = unat b + 1" using da db by simp
    from word_of_unat_sum [OF this] NE(1) show ?thesis
      by (simp add: TileAddByDiagDir_def)
  next
    case SE
    then have "unat b = unat a + 2 ^ MapLogX m" using da db by simp
    from word_of_unat_sum [OF this] SE(1) show ?thesis
      by (simp add: TileAddByDiagDir_def)
  next
    case NW
    then have "unat a = unat b + 2 ^ MapLogX m" using da db by simp
    from word_of_unat_sum [OF this] NW(1) show ?thesis
      by (simp add: TileAddByDiagDir_def)
  qed
qed

lemma road_stubs_connect_iff: "road_stubs_connect m = stubs_connect_except m {} {}"
proof -
  have "(CleanUpRoadBits m t rb = rb) =
        (\<forall>d. rb AND DiagDirToRoadBits d \<noteq> 0 \<longrightarrow> spec_connective m (TileAddByDiagDir m t d) d)"
    if "IsValidTile m t" for t rb
  proof
    assume eq: "CleanUpRoadBits m t rb = rb"
    show "\<forall>d. rb AND DiagDirToRoadBits d \<noteq> 0 \<longrightarrow> spec_connective m (TileAddByDiagDir m t d) d"
      using CleanUpRoadBits_has_bit [OF that, of rb] unfolding eq by blast
  next
    assume c: "\<forall>d. rb AND DiagDirToRoadBits d \<noteq> 0 \<longrightarrow> spec_connective m (TileAddByDiagDir m t d) d"
    from c have c': "bit rb (3 - diagdir_index d) \<Longrightarrow>
                       spec_connective m (TileAddByDiagDir m t d) d" for d
      by (simp add: has_road_bit)
    have "bit (CleanUpRoadBits m t rb) n = bit rb n" for n
      using that c' by (auto simp add: CleanUpRoadBits_def CleanUpRoadBits_fold_bit)
    then show "CleanUpRoadBits m t rb = rb"
      by (simp add: bit_eq_iff)
  qed
  then show ?thesis
    unfolding road_stubs_connect_def stubs_connect_except_def by auto
qed

lemma spec_connective_normal_road:
  "IsValidTile m n \<Longrightarrow> IsNormalRoadTile m n \<Longrightarrow> spec_connective m n d"
  by (simp add: spec_connective_def IsNormalRoadTile_def IsTileType_def)

lemma spec_connective_same_tile:
  assumes "tiles m' n = tiles m n" "MapLogX m' = MapLogX m" "MapLogY m' = MapLogY m"
  shows "spec_connective m' n d = spec_connective m n d"
  using assms
  by (simp add: spec_connective_def IsValidTile_def MapSize_def IsTileType_def GetTileType_def
      IsNormalRoadTile_def GetAnyRoadBits_def GetRoadBits_def GetRailTileType_def
      GetTrackBits_def GetFoundationSlope_def IsWater_def)

lemma WriteRoad_valid:
  "IsValidTile m tile \<Longrightarrow> IsValidTile (WriteRoad m tile rb town) t = IsValidTile m t"
  by (cases "t = tile")
     (simp_all add: IsValidTile_def MapSize_def IsTileType_def GetTileType_def WriteRoad_other
       WriteRoad_tile spec_written_tile_def)

lemma WriteRoad_normal:
  "GetTileType m tile = MP_ROAD \<longrightarrow> IsNormalRoadTile m tile \<Longrightarrow>
   IsNormalRoadTile (WriteRoad m tile rb town) tile"
  by (auto simp add: IsNormalRoadTile_def IsTileType_def GetTileType_def WriteRoad_tile
      spec_written_tile_def)

lemma WriteRoad_connective:
  assumes v: "IsValidTile m tile"
    and n: "GetTileType m tile = MP_ROAD \<longrightarrow> IsNormalRoadTile m tile"
    and c: "spec_connective m x d \<or> x = tile"
  shows "spec_connective (WriteRoad m tile rb town) x d"
proof (cases "x = tile")
  case True
  have "IsValidTile (WriteRoad m tile rb town) tile"
    using v by (simp add: WriteRoad_valid)
  then show ?thesis
    unfolding True using WriteRoad_normal [OF n] by (rule spec_connective_normal_road)
next
  case False
  then have "tiles (WriteRoad m tile rb town) x = tiles m x"
    by (simp add: WriteRoad_other)
  then have "spec_connective (WriteRoad m tile rb town) x d = spec_connective m x d"
    by (rule spec_connective_same_tile) simp_all
  with c False show ?thesis by simp
qed

lemma WriteRoad_stubs:
  assumes v: "IsValidTile m tile"
    and n: "GetTileType m tile = MP_ROAD \<longrightarrow> IsNormalRoadTile m tile"
    and inv: "stubs_connect_except m (insert tile P) D"
    and new: "\<And>d. rb AND DiagDirToRoadBits d \<noteq> 0 \<Longrightarrow>
                spec_connective m (TileAddByDiagDir m tile d) d \<or> TileAddByDiagDir m tile d \<in> P"
  shows "stubs_connect_except (WriteRoad m tile rb town) P D"
  unfolding stubs_connect_except_def
proof (intro allI impI, elim conjE)
  fix t d
  let ?m1 = "WriteRoad m tile rb town"
  assume v1: "IsValidTile ?m1 t" and ty1: "GetTileType ?m1 t = MP_ROAD"
    and b1: "GetRoadBits ?m1 t ROADTYPE_ROAD AND DiagDirToRoadBits d \<noteq> 0"
  have g: "TileAddByDiagDir ?m1 = TileAddByDiagDir m"
    by (rule geom_eq(7)) simp
  have vt: "IsValidTile m t" using v1 v by (simp add: WriteRoad_valid)
  have old: "spec_connective m (TileAddByDiagDir m t d) d \<or> TileAddByDiagDir m t d = tile \<or>
             TileAddByDiagDir m t d \<in> P \<or> (t, d) \<in> D"
    if "GetTileType m t = MP_ROAD" "GetRoadBits m t ROADTYPE_ROAD AND DiagDirToRoadBits d \<noteq> 0"
    using inv vt that unfolding stubs_connect_except_def by blast
  have "spec_connective m (TileAddByDiagDir m t d) d \<or> TileAddByDiagDir m t d = tile \<or>
        TileAddByDiagDir m t d \<in> P \<or> (t, d) \<in> D"
  proof (cases "t = tile")
    case False
    then have "GetTileType m t = MP_ROAD"
      "GetRoadBits m t ROADTYPE_ROAD AND DiagDirToRoadBits d \<noteq> 0"
      using ty1 b1 by (simp_all add: GetTileType_def GetRoadBits_def WriteRoad_other)
    then show ?thesis by (rule old)
  next
    case True
    show ?thesis
    proof (cases "GetTileType m tile = MP_ROAD")
      case road: True
      from b1 have "(GetRoadBits m tile ROADTYPE_ROAD OR rb) AND DiagDirToRoadBits d \<noteq> 0"
        by (simp add: True WriteRoad_bits road)
      then have "GetRoadBits m tile ROADTYPE_ROAD AND DiagDirToRoadBits d \<noteq> 0 \<or>
                 rb AND DiagDirToRoadBits d \<noteq> 0"
        by (auto simp add: bit.conj_disj_distrib2)
      then show ?thesis
        using old [unfolded True, OF road] new [of d] by (auto simp add: True)
    next
      case False
      from b1 have "rb AND DiagDirToRoadBits d \<noteq> 0"
        by (simp add: True WriteRoad_bits False)
      then show ?thesis
        using new [of d] by (auto simp add: True)
    qed
  qed
  then show "spec_connective ?m1 (TileAddByDiagDir ?m1 t d) d \<or>
             TileAddByDiagDir ?m1 t d \<in> P \<or> (t, d) \<in> D"
    unfolding g using WriteRoad_connective [OF v n, of "TileAddByDiagDir m t d" d rb town]
    by blast
qed

lemma DiagDirToRoadBits_disjoint:
  "DiagDirToRoadBits e AND DiagDirToRoadBits d \<noteq> 0 \<Longrightarrow> e = d"
  by (cases e; cases d) (simp_all add: DiagDirToRoadBits_simps)

lemma or_and_nonzero:
  fixes a b c :: RoadBits
  shows "(a OR b) AND c \<noteq> 0 \<Longrightarrow> a AND c \<noteq> 0 \<or> b AND c \<noteq> 0"
  by (auto simp add: bit.conj_disj_distrib2)

lemma RoadBitsTowards_bit:
  "RoadBitsTowards m a b = Inr rb \<Longrightarrow> rb AND DiagDirToRoadBits d \<noteq> 0 \<Longrightarrow>
   DiagdirBetweenTiles m a b = Some d"
  by (auto simp add: RoadBitsTowards_def dest: DiagDirToRoadBits_disjoint split: option.splits)

lemma NodeRoadBits_bit:
  assumes "NodeRoadBits m child tile parent = Inr rb" "rb AND DiagDirToRoadBits d \<noteq> 0"
  shows "(\<exists>c. child = Some c \<and> DiagdirBetweenTiles m tile c = Some d) \<or>
         (\<exists>p. parent = Some p \<and> DiagdirBetweenTiles m tile p = Some d)"
proof -
  from assms(1) obtain rc rp where
    rc: "case child of None \<Rightarrow> rc = 0 | Some c \<Rightarrow> RoadBitsTowards m tile c = Inr rc" and
    rp: "case parent of None \<Rightarrow> rp = 0 | Some p \<Rightarrow> RoadBitsTowards m tile p = Inr rp" and
    rb: "rb = rc OR rp"
    by (auto simp add: NodeRoadBits_def ROAD_NONE_def split: option.splits sum.splits)
  from assms(2) rb have "rc AND DiagDirToRoadBits d \<noteq> 0 \<or> rp AND DiagDirToRoadBits d \<noteq> 0"
    using or_and_nonzero by blast
  then show ?thesis
  proof
    assume b: "rc AND DiagDirToRoadBits d \<noteq> 0"
    then obtain c where "child = Some c" "RoadBitsTowards m tile c = Inr rc"
      using rc by (cases child) auto
    with b show ?thesis by (auto dest: RoadBitsTowards_bit)
  next
    assume b: "rp AND DiagDirToRoadBits d \<noteq> 0"
    then obtain p where "parent = Some p" "RoadBitsTowards m tile p = Inr rp"
      using rp by (cases parent) auto
    with b show ?thesis by (auto dest: RoadBitsTowards_bit)
  qed
qed

lemma WriteRoad_normal_other:
  "t \<noteq> tile \<Longrightarrow>
   IsNormalRoadTile (WriteRoad m tile rb town) t = IsNormalRoadTile m t \<and>
   GetTileType (WriteRoad m tile rb town) t = GetTileType m t"
  by (simp add: IsNormalRoadTile_def IsTileType_def GetTileType_def WriteRoad_other)

lemma stubs_connect_except_mono:
  "stubs_connect_except m P D \<Longrightarrow> P \<subseteq> Q \<Longrightarrow> stubs_connect_except m Q D"
  unfolding stubs_connect_except_def by blast

lemma FoundEndNode_loop_stubs:
  "FoundEndNode_loop closest m child path = Inr m' \<Longrightarrow>
   \<forall>t \<in> set path. IsValidTile m t \<and> (GetTileType m t = MP_ROAD \<longrightarrow> IsNormalRoadTile m t) \<Longrightarrow>
   stubs_connect_except m (set path) D \<Longrightarrow>
   adjacent_path m ((case child of None \<Rightarrow> [] | Some c \<Rightarrow> [c]) @ path) \<Longrightarrow>
   \<forall>c. child = Some c \<longrightarrow> IsValidTile m c \<and> IsNormalRoadTile m c \<Longrightarrow>
   child \<noteq> None \<or> length path \<noteq> 1 \<Longrightarrow>
   stubs_connect_except m' {} D"
proof (induction path arbitrary: m child)
  case Nil
  then show ?case by simp
next
  case (Cons tile rest)
  let ?parent = "case rest of [] \<Rightarrow> None | tile2 # _ \<Rightarrow> Some tile2"
  from Cons.prems(1) obtain rb where rb: "NodeRoadBits m child tile ?parent = Inr rb"
    by (auto simp add: Let_def split: sum.splits)
  have w: "child \<noteq> None \<or> ?parent \<noteq> None"
    using Cons.prems(6) by (cases rest) auto
  define m1 where "m1 = WriteRoad m tile rb (closest tile)"
  from Cons.prems(1) rb w have run: "FoundEndNode_loop closest m1 (Some tile) rest = Inr m'"
    by (simp add: Let_def m1_def)
  have v: "IsValidTile m tile"
    and n: "GetTileType m tile = MP_ROAD \<longrightarrow> IsNormalRoadTile m tile"
    using Cons.prems(2) by simp_all
  have adj: "adjacent_path m (tile # rest)"
    using Cons.prems(4) by (cases child) simp_all
  have c: "DistanceManhattan m tile c = 1" if "child = Some c" for c
    using Cons.prems(4) that by (simp add: DistanceManhattan_sym [of m tile c])
  have p: "DistanceManhattan m tile p = 1 \<and> p \<in> set rest" if "?parent = Some p" for p
    using adj that by (cases rest) auto
  have new: "spec_connective m (TileAddByDiagDir m tile d) d \<or> TileAddByDiagDir m tile d \<in> set rest"
    if "rb AND DiagDirToRoadBits d \<noteq> 0" for d
    using NodeRoadBits_bit [OF rb that]
  proof (elim disjE exE conjE)
    fix c assume ch: "child = Some c" and dir: "DiagdirBetweenTiles m tile c = Some d"
    have "TileAddByDiagDir m tile d = c"
      using c [OF ch] dir by (rule DiagdirBetweenTiles_step)
    moreover have "spec_connective m c d"
      using Cons.prems(5) ch by (simp add: spec_connective_normal_road)
    ultimately show ?thesis by simp
  next
    fix q assume pa: "?parent = Some q" and dir: "DiagdirBetweenTiles m tile q = Some d"
    have "TileAddByDiagDir m tile d = q"
      using p [OF pa] dir by (blast intro: DiagdirBetweenTiles_step)
    with p [OF pa] show ?thesis by simp
  qed
  have inv: "stubs_connect_except m (insert tile (set rest)) D"
    using Cons.prems(3) by simp
  have inv1: "stubs_connect_except m1 (set rest) D"
    unfolding m1_def using v n inv new by (rule WriteRoad_stubs)
  have v1: "IsValidTile m1 t = IsValidTile m t" for t
    unfolding m1_def using v by (rule WriteRoad_valid)
  have n1: "IsNormalRoadTile m1 tile"
    unfolding m1_def using n by (rule WriteRoad_normal)
  have tiles1: "\<forall>t \<in> set rest. IsValidTile m1 t \<and>
                  (GetTileType m1 t = MP_ROAD \<longrightarrow> IsNormalRoadTile m1 t)"
  proof
    fix t assume t: "t \<in> set rest"
    show "IsValidTile m1 t \<and> (GetTileType m1 t = MP_ROAD \<longrightarrow> IsNormalRoadTile m1 t)"
    proof (cases "t = tile")
      case True
      with v n1 show ?thesis by (simp add: v1)
    next
      case False
      from Cons.prems(2) t have a: "IsValidTile m t"
        "GetTileType m t = MP_ROAD \<longrightarrow> IsNormalRoadTile m t"
        by auto
      have b: "IsNormalRoadTile m1 t = IsNormalRoadTile m t \<and>
               GetTileType m1 t = GetTileType m t"
        unfolding m1_def using False by (rule WriteRoad_normal_other)
      from a b show ?thesis by (simp add: v1)
    qed
  qed
  have g: "MapLogX m1 = MapLogX m" by (simp add: m1_def)
  from adj have adj1: "adjacent_path m1 ((case Some tile of None \<Rightarrow> [] | Some c \<Rightarrow> [c]) @ rest)"
    by (simp add: adjacent_path_geom [OF g])
  have ch1: "\<forall>c. Some tile = Some c \<longrightarrow> IsValidTile m1 c \<and> IsNormalRoadTile m1 c"
    using v n1 by (simp add: v1)
  show ?case
    using Cons.IH [OF run tiles1 inv1 adj1 ch1] by simp
qed

lemma FoundEndNode_stubs:
  assumes "stubs_connect_except m {} D" "adjacent_path m path"
    and "\<forall>t \<in> set path. IsValidTile m t"
    and "\<forall>t \<in> set path. GetTileType m t = MP_ROAD \<longrightarrow> IsNormalRoadTile m t"
    and "FoundEndNode_loop closest m None path = Inr m'"
  shows "stubs_connect_except m' {} D"
proof (cases "length path = 1")
  case True
  from FoundEndNode_single [OF True, of closest m] assms(5) have "m' = m"
    by (simp add: PublicRoad_FoundEndNode_def)
  with assms(1) show ?thesis by simp
next
  case False
  have "stubs_connect_except m (set path) D"
    using assms(1) by (rule stubs_connect_except_mono) simp
  with assms(2-5) False show ?thesis
    by (intro FoundEndNode_loop_stubs [of closest m None path m']) simp_all
qed

lemma dangling_stub_iff:
  "dangling_stub m t d =
     (IsValidTile m t \<and> GetTileType m t = MP_ROAD \<and>
      GetRoadBits m t ROADTYPE_ROAD AND DiagDirToRoadBits d \<noteq> 0 \<and>
      \<not> spec_connective m (TileAddByDiagDir m t d) d)"
proof (cases "IsValidTile m t")
  case True
  from CleanUpRoadBits_has_bit [OF True, of "GetRoadBits m t ROADTYPE_ROAD" d] True
  show ?thesis
    unfolding dangling_stub_def by blast
next
  case False
  then show ?thesis by (simp add: dangling_stub_def)
qed

lemma road_bits_kept:
  fixes a b c :: RoadBits
  assumes "a OR b = b" "a AND c \<noteq> 0"
  shows "b AND c \<noteq> 0"
proof
  assume z: "b AND c = 0"
  have "a AND c = (a AND c) AND (b AND c)"
    by (subst assms(1) [symmetric]) (simp add: bit_eq_iff bit_and_iff bit_or_iff, blast)
  with z assms(2) show False by simp
qed

text \<open>
  C4, as the code has it. Materialization adds no dangling stub. For a path that is a
  chain of adjacent valid tiles on which every road tile is a normal road tile,
  \<open>PublicRoad_FoundEndNode\<close> returns a map on which every road bit of a valid road tile
  that the validator strips was already a road bit of that tile that the validator
  stripped on the map before. It removes none either, unless the path itself runs over
  the neighbour: a stub that dangled before and points at a tile off the path dangles
  afterwards too, since existing bits are only ORed into and the validator is never asked.
\<close>

theorem FoundEndNode_no_new_dangling_stub:
  assumes "adjacent_path m path"
    and "\<forall>t \<in> set path. IsValidTile m t"
    and "\<forall>t \<in> set path. GetTileType m t = MP_ROAD \<longrightarrow> IsNormalRoadTile m t"
  shows "\<exists>m'. PublicRoad_FoundEndNode closest m path = Inr m' \<and>
           (\<forall>t d. dangling_stub m' t d \<longrightarrow> dangling_stub m t d) \<and>
           (\<forall>t d. dangling_stub m t d \<and> TileAddByDiagDir m t d \<notin> set path \<longrightarrow>
                  dangling_stub m' t d)"
proof -
  from FoundEndNode_loop_total [of m None path closest] assms(1)
  obtain m' where run: "FoundEndNode_loop closest m None path = Inr m'"
    by auto
  note fr = FoundEndNode_loop_frame [OF run]
  have gx: "MapLogX m' = MapLogX m" and gy: "MapLogY m' = MapLogY m"
    using fr by simp_all
  have ga: "TileAddByDiagDir m' = TileAddByDiagDir m"
    using gx by (rule geom_eq(7))
  have "stubs_connect_except m {} {(t, d). dangling_stub m t d}"
    unfolding stubs_connect_except_def by (auto simp add: dangling_stub_iff)
  from FoundEndNode_stubs [OF this assms run]
  have after: "stubs_connect_except m' {} {(t, d). dangling_stub m t d}" .
  have no_new: "dangling_stub m t d" if "dangling_stub m' t d" for t d
    using after that unfolding stubs_connect_except_def
    by (auto simp add: dangling_stub_iff [of m'])
  have kept: "dangling_stub m' t d"
    if d: "dangling_stub m t d" and off: "TileAddByDiagDir m t d \<notin> set path" for t d
  proof -
    from d have v: "IsValidTile m t" and ty: "GetTileType m t = MP_ROAD"
      and b: "GetRoadBits m t ROADTYPE_ROAD AND DiagDirToRoadBits d \<noteq> 0"
      and nc: "\<not> spec_connective m (TileAddByDiagDir m t d) d"
      by (simp_all add: dangling_stub_iff)
    from fr ty have ty': "GetTileType m' t = MP_ROAD"
      and sub: "GetRoadBits m t ROADTYPE_ROAD OR GetRoadBits m' t ROADTYPE_ROAD
                  = GetRoadBits m' t ROADTYPE_ROAD"
      by blast+
    have v': "IsValidTile m' t"
      using v ty' by (simp add: IsValidTile_def MapSize_def IsTileType_def gx gy)
    have b': "GetRoadBits m' t ROADTYPE_ROAD AND DiagDirToRoadBits d \<noteq> 0"
      using sub b by (rule road_bits_kept)
    from fr off have "tiles m' (TileAddByDiagDir m t d) = tiles m (TileAddByDiagDir m t d)"
      by blast
    then have "spec_connective m' (TileAddByDiagDir m t d) d
                 = spec_connective m (TileAddByDiagDir m t d) d"
      using gx gy by (rule spec_connective_same_tile)
    with nc have nc': "\<not> spec_connective m' (TileAddByDiagDir m' t d) d"
      by (simp add: ga)
    from v' ty' b' nc' show ?thesis
      by (simp add: dangling_stub_iff)
  qed
  from run no_new kept show ?thesis
    unfolding PublicRoad_FoundEndNode_def by blast
qed

text \<open>
  On the map with the road stub, with the path from (3, 1) back to (1, 1) over the road
  tile (2, 1): the stub of (2, 1) towards the house dangled before and dangles after, and
  the new road tile (3, 1), which had no stub before, has none after.
\<close>

theorem FoundEndNode_no_new_dangling_stub_witness:
  "adjacent_path stub_map [11, 10, 9] \<and>
   IsValidTile stub_map 11 \<and> IsValidTile stub_map 10 \<and> IsValidTile stub_map 9 \<and>
   IsNormalRoadTile stub_map 10 \<and> GetTileType stub_map 11 = MP_CLEAR \<and>
   GetTileType stub_map 9 = MP_CLEAR \<and>
   dangling_stub stub_map 10 DIAGDIR_NW \<and> \<not> dangling_stub stub_map 11 DIAGDIR_NE \<and>
   (\<exists>m'. PublicRoad_FoundEndNode (\<lambda>t. 5) stub_map [11, 10, 9] = Inr m' \<and>
         dangling_stub m' 10 DIAGDIR_NW \<and> \<not> dangling_stub m' 11 DIAGDIR_NE)"
proof -
  have adj: "adjacent_path stub_map [11, 10, 9]" by code_simp
  have v: "IsValidTile stub_map 11" "IsValidTile stub_map 10" "IsValidTile stub_map 9"
    by code_simp+
  have n: "IsNormalRoadTile stub_map 10" "GetTileType stub_map 11 = MP_CLEAR"
    "GetTileType stub_map 9 = MP_CLEAR"
    by code_simp+
  have valid: "\<forall>t \<in> set [11, 10, 9]. IsValidTile stub_map t"
    using v by simp
  have normal: "\<forall>t \<in> set [11, 10, 9].
      GetTileType stub_map t = MP_ROAD \<longrightarrow> IsNormalRoadTile stub_map t"
    using n by simp
  have d10: "dangling_stub stub_map 10 DIAGDIR_NW" by code_simp
  have d11: "\<not> dangling_stub stub_map 11 DIAGDIR_NE" by code_simp
  have off: "TileAddByDiagDir stub_map 10 DIAGDIR_NW \<notin> set [11, 10, 9]" by code_simp
  from FoundEndNode_no_new_dangling_stub [OF adj valid normal, of "\<lambda>t. 5"]
  obtain m' where
    run: "PublicRoad_FoundEndNode (\<lambda>t. 5) stub_map [11, 10, 9] = Inr m'" and
    no_new: "\<forall>t d. dangling_stub m' t d \<longrightarrow> dangling_stub stub_map t d" and
    kept: "\<forall>t d. dangling_stub stub_map t d \<and>
                 TileAddByDiagDir stub_map t d \<notin> set [11, 10, 9] \<longrightarrow> dangling_stub m' t d"
    by blast
  from kept d10 off have a: "dangling_stub m' 10 DIAGDIR_NW" by blast
  from no_new d11 have b: "\<not> dangling_stub m' 11 DIAGDIR_NE" by blast
  from adj v n d10 d11 run a b show ?thesis by blast
qed

text \<open>
  The claim as stated fails on the map with the road stub. The path from (1, 1) over the
  road tile (2, 1) to (3, 1) is one the expansion allows; materializing it ORs the two
  path directions into the road tile and keeps its north-west bit, which points at the
  house: the validator strips that bit from the committed tile.
\<close>

theorem dangling_stub_counterexample:
  "buildable_path stub_map [9, 10, 11] \<and>
   (\<exists>m'. PublicRoad_FoundEndNode (\<lambda>t. 5) stub_map [11, 10, 9] = Inr m' \<and>
         IsValidTile m' 10 \<and> GetTileType m' 10 = MP_ROAD \<and>
         GetRoadBits m' 10 ROADTYPE_ROAD = 11 \<and>
         CleanUpRoadBits m' 10 (GetRoadBits m' 10 ROADTYPE_ROAD) = 10 \<and>
         \<not> road_stubs_connect m')"
proof -
  have b: "buildable_path stub_map [9, 10, 11]" by code_simp
  have "case PublicRoad_FoundEndNode (\<lambda>t. 5) stub_map [11, 10, 9] of
          Inl e \<Rightarrow> False
        | Inr m' \<Rightarrow> IsValidTile m' 10 \<and> GetTileType m' 10 = MP_ROAD \<and>
            GetRoadBits m' 10 ROADTYPE_ROAD = 11 \<and>
            CleanUpRoadBits m' 10 (GetRoadBits m' 10 ROADTYPE_ROAD) = 10"
    by code_simp
  then obtain m' where
    run: "PublicRoad_FoundEndNode (\<lambda>t. 5) stub_map [11, 10, 9] = Inr m'" and
    v: "IsValidTile m' 10" "GetTileType m' 10 = MP_ROAD" and
    rb: "GetRoadBits m' 10 ROADTYPE_ROAD = 11" and
    cl: "CleanUpRoadBits m' 10 (GetRoadBits m' 10 ROADTYPE_ROAD) = 10"
    by (auto split: sum.splits)
  have "\<not> road_stubs_connect m'"
  proof
    assume "road_stubs_connect m'"
    with v have "CleanUpRoadBits m' 10 (GetRoadBits m' 10 ROADTYPE_ROAD)
                   = GetRoadBits m' 10 ROADTYPE_ROAD"
      unfolding road_stubs_connect_def by blast
    with rb cl show False by simp
  qed
  with b run v rb cl show ?thesis by blast
qed

text \<open>
  In particular materialization preserves the invariant where it held: a map without
  dangling stubs has none afterwards.
\<close>

lemma FoundEndNode_preserves_stub_invariant:
  assumes "road_stubs_connect m" "adjacent_path m path"
    and "\<forall>t \<in> set path. IsValidTile m t"
    and "\<forall>t \<in> set path. GetTileType m t = MP_ROAD \<longrightarrow> IsNormalRoadTile m t"
  shows "\<exists>m'. PublicRoad_FoundEndNode closest m path = Inr m' \<and> road_stubs_connect m'"
proof -
  from FoundEndNode_loop_total [of m None path closest] assms(2)
  obtain m' where run: "FoundEndNode_loop closest m None path = Inr m'"
    by auto
  have "stubs_connect_except m {} {}"
    using assms(1) by (simp add: road_stubs_connect_iff)
  from FoundEndNode_stubs [OF this assms(2-4) run] have "road_stubs_connect m'"
    by (simp add: road_stubs_connect_iff)
  with run show ?thesis
    by (simp add: PublicRoad_FoundEndNode_def)
qed

text \<open>
  Why the road tiles of the path have to be normal ones: the expansion lets a path enter
  any road tile, also a level crossing from the side of the rails. On the map with the
  crossing the path is one the expansion allows and the tile (3, 1) has no stub before;
  afterwards it is a road tile whose bit towards the crossing dangles, since the road of
  the crossing runs the other way.
\<close>

lemma crossing_on_path_adds_dangling_stub:
  "buildable_path crossing_map [9, 10, 11] \<and> \<not> dangling_stub crossing_map 11 DIAGDIR_NE \<and>
   (\<exists>m'. PublicRoad_FoundEndNode (\<lambda>t. 5) crossing_map [11, 10, 9] = Inr m' \<and>
         dangling_stub m' 11 DIAGDIR_NE)"
proof -
  have b: "buildable_path crossing_map [9, 10, 11]" by code_simp
  have before: "\<not> dangling_stub crossing_map 11 DIAGDIR_NE" by code_simp
  have "case PublicRoad_FoundEndNode (\<lambda>t. 5) crossing_map [11, 10, 9] of
          Inl e \<Rightarrow> False
        | Inr m' \<Rightarrow> dangling_stub m' 11 DIAGDIR_NE"
    by code_simp
  then obtain m' where
    "PublicRoad_FoundEndNode (\<lambda>t. 5) crossing_map [11, 10, 9] = Inr m'"
    "dangling_stub m' 11 DIAGDIR_NE"
    by (auto split: sum.splits)
  with b before show ?thesis by blast
qed

end
